theory Spec2Isabelle
  imports Main "HOL-Library.Multiset"
begin

section \<open>Data model\<close>

text \<open>
  A row of the labels table, as \<^verbatim>\<open>load_metadata\<close> in
  \<^verbatim>\<open>app/streamlit_app.py\<close> prepares it: every column is a string (\<^verbatim>\<open>year\<close> is
  converted with \<^verbatim>\<open>astype(str)\<close>, the localized names and the variant are filled).
  \<^verbatim>\<open>build_option_label\<close> reads the variant with \<^verbatim>\<open>row.get("variant", "")\<close>, so that
  column alone may be absent: it is an option.
\<close>

record row =
  make_ko :: string
  make_en :: string
  model_ko :: string
  model_en :: string
  year :: string
  variant :: "string option"

text \<open>
  The data frame: its rows in order, each with its index label. \<^verbatim>\<open>len(df)\<close> is the
  length of the list, \<^verbatim>\<open>df.index.tolist()\<close> the list of the labels, \<^verbatim>\<open>df.loc[idx]\<close>
  the lookup \<open>map_of df idx\<close>. The labels of a data set identify its rows
  (\<^verbatim>\<open>load_metadata\<close> ends with \<^verbatim>\<open>reset_index\<close>); \<open>unique_index\<close> says so.
  Where a label repeats, pandas answers \<^verbatim>\<open>df.loc[idx]\<close> with a frame instead of a
  row and the code leaves the path translated here; the theorems that speak of lookups
  or of the errors raised assume \<open>unique_index\<close>.
\<close>

type_synonym dataframe = "(int \<times> row) list"

definition df_index :: "dataframe \<Rightarrow> int list" where
  "df_index df = map fst df"

definition unique_index :: "dataframe \<Rightarrow> bool" where
  "unique_index df = distinct (df_index df)"

text \<open>The dataclass \<^verbatim>\<open>OptionItem\<close> (options.py, lines 12-20).\<close>

record OptionItem =
  row_idx :: int
  label :: string

text \<open>
  The three exceptions \<^verbatim>\<open>generate_options\<close> raises: \<^verbatim>\<open>ValueError\<close> on an empty data
  frame (line 66), \<^verbatim>\<open>KeyError\<close> on an index that is not in the frame (line 71, and any
  \<^verbatim>\<open>df.loc\<close> lookup), \<^verbatim>\<open>RuntimeError\<close> when too few options were collected (line 177).
\<close>

datatype error = EmptyDataset | UnknownRecord | InsufficientCandidates

section \<open>The label formatter\<close>

text \<open>\<^verbatim>\<open>" ".join(parts)\<close>.\<close>

fun join_space :: "string list \<Rightarrow> string" where
  "join_space [] = []"
| "join_space [p] = p"
| "join_space (p # q # ps) = p @ '' '' @ join_space (q # ps)"

text \<open>
  \<^verbatim>\<open>build_option_label\<close> (options.py, lines 23-38). A string is truthy when it is not
  empty; \<^verbatim>\<open>str\<close> of a string is the string.
\<close>

definition build_option_label :: "row \<Rightarrow> string" where
  "build_option_label r =
     (let make = (if make_ko r \<noteq> [] then make_ko r @ ''('' @ make_en r @ '')'' else make_en r);
          model = (if model_ko r \<noteq> [] then model_ko r @ ''('' @ model_en r @ '')''
                   else model_en r);
          yr = year r;
          var = (case variant r of None \<Rightarrow> [] | Some v \<Rightarrow> v);
          components = [make, model, yr];
          components = (if var \<noteq> [] then components @ [var] else components)
      in join_space (filter (\<lambda>part. part \<noteq> []) components))"

text \<open>
  The format as section 4.1 of the specification words it: four segments, the empty ones
  skipped, joined by single spaces.
\<close>

definition bilingual_segment :: "string \<Rightarrow> string \<Rightarrow> string" where
  "bilingual_segment localized english =
     (if localized = [] then english else localized @ ''('' @ english @ '')'')"

definition variant_segment :: "row \<Rightarrow> string" where
  "variant_segment r = (case variant r of None \<Rightarrow> [] | Some v \<Rightarrow> v)"

definition label_format :: "row \<Rightarrow> string" where
  "label_format r =
     join_space
       (filter (\<lambda>s. s \<noteq> [])
          [bilingual_segment (make_ko r) (make_en r),
           bilingual_segment (model_ko r) (model_en r),
           year r,
           variant_segment r])"

section \<open>The distractor selector\<close>

text \<open>
  Two things the selector uses are not code of the repository and are parameters here:
  \<^item> \<open>shuffle\<close>, the method \<^verbatim>\<open>rng.shuffle\<close> of the random generator: from the state
    of the generator and a list it gives the reordered list and the next state;
  \<^item> \<open>set_iter\<close>, the order in which \<^verbatim>\<open>list(selected_set)\<close> lists a set.
  What the theorems below need of them is stated by \<open>shuffle_permutes\<close> and
  \<open>lists_members\<close>.
\<close>

type_synonym 'r shuffler = "'r \<Rightarrow> int list \<Rightarrow> int list \<times> 'r"

definition shuffle_permutes :: "'r shuffler \<Rightarrow> bool" where
  "shuffle_permutes shuffle = (\<forall>rng xs. mset (fst (shuffle rng xs)) = mset xs)"

definition lists_members :: "(int set \<Rightarrow> int list) \<Rightarrow> bool" where
  "lists_members set_iter =
     (\<forall>S. finite S \<longrightarrow> set (set_iter S) = S \<and> distinct (set_iter S))"

text \<open>
  \<^verbatim>\<open>difficulty.lower()\<close> (line 76). Strings are byte lists here; the letters A to Z
  are mapped to a to z and every other byte is kept. Python also lowers letters outside
  ASCII, but it lowers no string that has one to \<^verbatim>\<open>easy\<close>, \<^verbatim>\<open>medium\<close> or
  \<^verbatim>\<open>hard\<close>, so the tests on the difficulty come out as in Python.
\<close>

definition lower_char :: "char \<Rightarrow> char" where
  "lower_char c =
     (let n = (of_char c :: nat) in if 65 \<le> n \<and> n \<le> 90 then char_of (n + 32) else c)"

definition lower :: "string \<Rightarrow> string" where
  "lower s = map lower_char s"

text \<open>The table \<^verbatim>\<open>difficulty_plan\<close> (lines 78-98) and its lookup with the medium default.\<close>

record plan =
  same_make :: int
  same_model :: int
  same_year :: int

definition easy_plan :: plan where
  "easy_plan = \<lparr>same_make = 2, same_model = 1, same_year = 1\<rparr>"

definition medium_plan :: plan where
  "medium_plan = \<lparr>same_make = 4, same_model = 2, same_year = 2\<rparr>"

definition hard_plan :: plan where
  "hard_plan = \<lparr>same_make = 6, same_model = 3, same_year = 1\<rparr>"

definition difficulty_plan :: "(string \<times> plan) list" where
  "difficulty_plan = [(''easy'', easy_plan), (''medium'', medium_plan), (''hard'', hard_plan)]"

definition plan_get :: "string \<Rightarrow> plan" where
  "plan_get difficulty =
     (case map_of difficulty_plan difficulty of Some p \<Rightarrow> p | None \<Rightarrow> medium_plan)"

text \<open>
  \<^verbatim>\<open>_candidate_indices\<close> (lines 41-50). A boolean mask over the frame is a predicate
  on its (label, row) pairs; \<^verbatim>\<open>df[mask].index.tolist()\<close> keeps the labels of the rows
  the mask selects.
\<close>

type_synonym mask = "int \<times> row \<Rightarrow> bool"

definition candidate_indices :: "dataframe \<Rightarrow> mask \<Rightarrow> int set \<Rightarrow> int list" where
  "candidate_indices df m excluded = filter (\<lambda>idx. idx \<notin> excluded) (map fst (filter m df))"

text \<open>
  \<^verbatim>\<open>df.loc[idx, "make_en"]\<close>. It is only evaluated on labels taken from the frame
  (lemma \<open>loc_make_en_present\<close>); \<open>None\<close> stands for the label that is absent.
\<close>

definition loc_make_en :: "dataframe \<Rightarrow> int \<Rightarrow> string option" where
  "loc_make_en df idx = map_option make_en (map_of df idx)"

text \<open>
  The loop that ends \<^verbatim>\<open>try_add\<close> (lines 111-114) and the fill phase (lines 170-173):
  add the identifiers one by one and stop as soon as the set has \<open>total_options\<close> members.
\<close>

fun add_until :: "int \<Rightarrow> int list \<Rightarrow> int set \<Rightarrow> int set" where
  "add_until total_options [] selected_set = selected_set"
| "add_until total_options (idx # rest) selected_set =
     (let selected_set = insert idx selected_set
      in if int (card selected_set) \<ge> total_options then selected_set
         else add_until total_options rest selected_set)"

text \<open>
  The closure \<^verbatim>\<open>try_add\<close> (lines 100-114). It mutates \<^verbatim>\<open>selected_set\<close> and the
  generator: both are passed in and returned.
\<close>

definition try_add ::
  "'r shuffler \<Rightarrow> dataframe \<Rightarrow> row \<Rightarrow> int \<Rightarrow> mask \<Rightarrow> int \<Rightarrow> bool \<Rightarrow> int set \<times> 'r \<Rightarrow> int set \<times> 'r"
where
  "try_add shuffle df correct_row total_options m target different_make st =
     (case st of (selected_set, rng) \<Rightarrow>
        if int (card selected_set) \<ge> total_options \<or> target \<le> 0 then (selected_set, rng)
        else
          let candidates = candidate_indices df m selected_set;
              candidates =
                (if different_make
                 then filter (\<lambda>idx. loc_make_en df idx \<noteq> Some (make_en correct_row)) candidates
                 else candidates)
          in case shuffle rng candidates of (candidates, rng) \<Rightarrow>
               (add_until total_options (take (nat target) candidates) selected_set, rng))"

text \<open>The three masks of the quota phase (lines 118, 123-125 and 130).\<close>

definition same_make_mask :: "row \<Rightarrow> int \<Rightarrow> mask" where
  "same_make_mask correct_row correct_idx =
     (\<lambda>(idx, r). make_en r = make_en correct_row \<and> idx \<noteq> correct_idx)"

definition same_model_mask :: "row \<Rightarrow> int \<Rightarrow> mask" where
  "same_model_mask correct_row correct_idx =
     (\<lambda>(idx, r). model_en r = model_en correct_row \<and> year r \<noteq> year correct_row
        \<and> idx \<noteq> correct_idx)"

definition same_year_mask :: "row \<Rightarrow> int \<Rightarrow> mask" where
  "same_year_mask correct_row correct_idx =
     (\<lambda>(idx, r). year r = year correct_row \<and> idx \<noteq> correct_idx)"

text \<open>The three calls of \<^verbatim>\<open>try_add\<close> (lines 117-133), one per quota.\<close>

definition same_make_phase ::
  "'r shuffler \<Rightarrow> dataframe \<Rightarrow> row \<Rightarrow> int \<Rightarrow> int \<Rightarrow> string \<Rightarrow> int set \<times> 'r \<Rightarrow> int set \<times> 'r"
where
  "same_make_phase shuffle df correct_row correct_idx total_options difficulty st =
     try_add shuffle df correct_row total_options (same_make_mask correct_row correct_idx)
       (same_make (plan_get difficulty)) False st"

definition same_model_phase ::
  "'r shuffler \<Rightarrow> dataframe \<Rightarrow> row \<Rightarrow> int \<Rightarrow> int \<Rightarrow> string \<Rightarrow> int set \<times> 'r \<Rightarrow> int set \<times> 'r"
where
  "same_model_phase shuffle df correct_row correct_idx total_options difficulty st =
     try_add shuffle df correct_row total_options (same_model_mask correct_row correct_idx)
       (same_model (plan_get difficulty)) False st"

definition same_year_phase ::
  "'r shuffler \<Rightarrow> dataframe \<Rightarrow> row \<Rightarrow> int \<Rightarrow> int \<Rightarrow> string \<Rightarrow> int set \<times> 'r \<Rightarrow> int set \<times> 'r"
where
  "same_year_phase shuffle df correct_row correct_idx total_options difficulty st =
     try_add shuffle df correct_row total_options (same_year_mask correct_row correct_idx)
       (same_year (plan_get difficulty)) (difficulty = ''easy'') st"

text \<open>The fill phase (lines 136-173).\<close>

definition fill_phase ::
  "'r shuffler \<Rightarrow> dataframe \<Rightarrow> row \<Rightarrow> int \<Rightarrow> string \<Rightarrow> int set \<times> 'r \<Rightarrow> int set \<times> 'r"
where
  "fill_phase shuffle df correct_row total_options difficulty st =
     (case st of (selected_set, rng) \<Rightarrow>
        if int (card selected_set) < total_options then
          let remaining_indices = filter (\<lambda>idx. idx \<notin> selected_set) (df_index df)
          in if difficulty = ''easy'' then
               case shuffle rng remaining_indices of (remaining_indices, rng) \<Rightarrow>
                 let different_make_indices =
                       filter (\<lambda>idx. loc_make_en df idx \<noteq> Some (make_en correct_row))
                         remaining_indices;
                     same_make_indices =
                       filter (\<lambda>idx. loc_make_en df idx = Some (make_en correct_row))
                         remaining_indices;
                     ordered_indices = different_make_indices @ same_make_indices
                 in (add_until total_options ordered_indices selected_set, rng)
             else if difficulty = ''hard'' then
               case shuffle rng remaining_indices of (remaining_indices, rng) \<Rightarrow>
                 let same_make_indices =
                       filter (\<lambda>idx. loc_make_en df idx = Some (make_en correct_row))
                         remaining_indices;
                     different_make_indices =
                       filter (\<lambda>idx. loc_make_en df idx \<noteq> Some (make_en correct_row))
                         remaining_indices;
                     ordered_indices = same_make_indices @ different_make_indices
                 in (add_until total_options ordered_indices selected_set, rng)
             else
               case shuffle rng remaining_indices of (remaining_indices, rng) \<Rightarrow>
                 (add_until total_options remaining_indices selected_set, rng)
        else (selected_set, rng))"

text \<open>
  The selection, lines 73-173: the set starts as the correct identifier alone, then the
  three quotas and the fill phase run in this order.
\<close>

definition select_ids ::
  "'r shuffler \<Rightarrow> dataframe \<Rightarrow> row \<Rightarrow> int \<Rightarrow> int \<Rightarrow> string \<Rightarrow> 'r \<Rightarrow> int set \<times> 'r"
where
  "select_ids shuffle df correct_row correct_idx total_options difficulty rng =
     fill_phase shuffle df correct_row total_options difficulty
       (same_year_phase shuffle df correct_row correct_idx total_options difficulty
          (same_model_phase shuffle df correct_row correct_idx total_options difficulty
             (same_make_phase shuffle df correct_row correct_idx total_options difficulty
                ({correct_idx}, rng))))"

text \<open>
  The list comprehension that builds the result (lines 185-188). \<^verbatim>\<open>df.loc[idx]\<close>
  raises \<^verbatim>\<open>KeyError\<close> on a label that is not in the frame.
\<close>

fun build_items :: "dataframe \<Rightarrow> int list \<Rightarrow> error + OptionItem list" where
  "build_items df [] = Inr []"
| "build_items df (idx # rest) =
     (case map_of df idx of
        None \<Rightarrow> Inl UnknownRecord
      | Some r \<Rightarrow>
          (case build_items df rest of
             Inl e \<Rightarrow> Inl e
           | Inr items \<Rightarrow> Inr (\<lparr>row_idx = idx, label = build_option_label r\<rparr> # items)))"

text \<open>
  \<^verbatim>\<open>generate_options\<close> (lines 53-188). The argument \<open>rng\<close> is \<open>None\<close> when the caller
  passes no generator; \<open>fresh_rng\<close> is the state of the generator \<^verbatim>\<open>random.Random()\<close>
  then creates, seeded by the operating system. The result carries the state in which
  the call leaves the generator.
\<close>

definition generate_options ::
  "'r shuffler \<Rightarrow> (int set \<Rightarrow> int list) \<Rightarrow> 'r \<Rightarrow> dataframe \<Rightarrow> int \<Rightarrow> int \<Rightarrow> string \<Rightarrow> 'r option
     \<Rightarrow> error + (OptionItem list \<times> 'r)"
where
  "generate_options shuffle set_iter fresh_rng df correct_idx total_options difficulty rng =
     (let rng = (case rng of None \<Rightarrow> fresh_rng | Some g \<Rightarrow> g);
          available_count = int (length df)
      in if available_count = 0 then Inl EmptyDataset
         else
           let total_options = max 2 (min total_options available_count)
           in case map_of df correct_idx of
                None \<Rightarrow> Inl UnknownRecord
              | Some correct_row \<Rightarrow>
                  let difficulty = lower difficulty
                  in case select_ids shuffle df correct_row correct_idx total_options
                            difficulty rng of
                       (selected_set, rng) \<Rightarrow>
                         let selected_list = set_iter selected_set
                         in if int (length selected_list) < total_options
                            then Inl InsufficientCandidates
                            else
                              case shuffle rng selected_list of (selected_list, rng) \<Rightarrow>
                                (case build_items df (take (nat total_options) selected_list) of
                                   Inl e \<Rightarrow> Inl e
                                 | Inr items \<Rightarrow> Inr (items, rng)))"

section \<open>Notions used in the proofs\<close>

text \<open>
  The requested count after the clamp of line 68, and the generator the call works with
  (lines 61-62).
\<close>

definition clamp_total :: "int \<Rightarrow> dataframe \<Rightarrow> int" where
  "clamp_total total_options df = max 2 (min total_options (int (length df)))"

definition rng_of :: "'r \<Rightarrow> 'r option \<Rightarrow> 'r" where
  "rng_of fresh rng = (case rng of None \<Rightarrow> fresh | Some g \<Rightarrow> g)"

text \<open>
  What every phase keeps true of \<^verbatim>\<open>selected_set\<close>: it is finite, holds the correct
  identifier and only labels of the frame, and never has more than \<open>total_options\<close>
  members.
\<close>

definition selection_inv :: "dataframe \<Rightarrow> int \<Rightarrow> int \<Rightarrow> int set \<Rightarrow> bool" where
  "selection_inv df correct_idx total_options S =
     (finite S \<and> correct_idx \<in> S \<and> S \<subseteq> set (df_index df) \<and> int (card S) \<le> total_options)"

text \<open>The list \<^verbatim>\<open>candidates\<close> that \<^verbatim>\<open>try_add\<close> shuffles (lines 103-109).\<close>

definition quota_candidates :: "dataframe \<Rightarrow> row \<Rightarrow> mask \<Rightarrow> bool \<Rightarrow> int set \<Rightarrow> int list" where
  "quota_candidates df crow m dm S =
     (if dm then filter (\<lambda>idx. loc_make_en df idx \<noteq> Some (make_en crow)) (candidate_indices df m S)
      else candidate_indices df m S)"

text \<open>The list \<^verbatim>\<open>ordered_indices\<close> of the fill phase, from the shuffled remainder.\<close>

definition fill_order :: "dataframe \<Rightarrow> row \<Rightarrow> string \<Rightarrow> int list \<Rightarrow> int list" where
  "fill_order df crow d xs =
     (if d = ''easy'' then filter (\<lambda>idx. loc_make_en df idx \<noteq> Some (make_en crow)) xs
                           @ filter (\<lambda>idx. loc_make_en df idx = Some (make_en crow)) xs
      else if d = ''hard'' then filter (\<lambda>idx. loc_make_en df idx = Some (make_en crow)) xs
                           @ filter (\<lambda>idx. loc_make_en df idx \<noteq> Some (make_en crow)) xs
      else xs)"

text \<open>
  A generator for the examples: its state is a counter, and it rotates the list by the
  counter. The examples list a set in increasing order.
\<close>

definition rot_shuffle :: "nat shuffler" where
  "rot_shuffle g xs = (rotate g xs, Suc g)"

definition car :: "string \<Rightarrow> string \<Rightarrow> string \<Rightarrow> row" where
  "car mk md yr =
     \<lparr>make_ko = [], make_en = mk, model_ko = [], model_en = md, year = yr, variant = None\<rparr>"

definition sample_df :: dataframe where
  "sample_df =
     [(0, car ''Kia'' ''K5'' ''2020''), (1, car ''Kia'' ''K3'' ''2020''),
      (2, car ''BMW'' ''X5'' ''2020''), (3, car ''Kia'' ''K5'' ''2019''),
      (4, car ''Audi'' ''A4'' ''2021'')]"

definition single_df :: dataframe where
  "single_df = [(7, car ''Kia'' ''K5'' ''2020'')]"

section \<open>The call as a relation\<close>

text \<open>
  In the functions above the shuffle and the listing of a set are functions, so a call
  has one result whatever the code does. To state that the code brings in no variation of
  its own, the call is written a second time as a relation between its arguments and its
  results. There the generator and the runtime are relations that may allow several
  answers:
  \<^item> \<open>shuf g xs (ys, g')\<close>: the generator in state \<open>g\<close> may shuffle \<open>xs\<close> to
    \<open>ys\<close> and move to state \<open>g'\<close>;
  \<^item> \<open>listing h l\<close>: \<^verbatim>\<open>list(selected_set)\<close> may give \<open>l\<close> for a set that was
    built by adding the identifiers \<open>h\<close> in this order;
  \<^item> \<open>fresh g\<close>: \<^verbatim>\<open>random.Random()\<close> may create a generator in state \<open>g\<close>.
\<close>

type_synonym 'r shuffle_rel = "'r \<Rightarrow> int list \<Rightarrow> int list \<times> 'r \<Rightarrow> bool"

type_synonym listing_rel = "int list \<Rightarrow> int list \<Rightarrow> bool"

text \<open>
  A generator is determined by its state when a state and a list allow one answer; the
  listing is determined when an insertion history allows one list.
\<close>

definition shuffle_determined :: "'r shuffle_rel \<Rightarrow> bool" where
  "shuffle_determined shuf = (\<forall>g xs p q. shuf g xs p \<longrightarrow> shuf g xs q \<longrightarrow> p = q)"

definition listing_determined :: "listing_rel \<Rightarrow> bool" where
  "listing_determined listing = (\<forall>h l l'. listing h l \<longrightarrow> listing h l' \<longrightarrow> l = l')"

text \<open>
  \<^verbatim>\<open>selected_set\<close> with its history: \<^verbatim>\<open>selected_set.add(idx)\<close> appends an
  identifier that is new and changes nothing otherwise; the set is \<open>set h\<close> and
  \<^verbatim>\<open>len(selected_set)\<close> is \<open>card (set h)\<close>. The loop of lines 111-114 and 170-173 on
  histories:
\<close>

definition set_add :: "int \<Rightarrow> int list \<Rightarrow> int list" where
  "set_add idx h = (if idx \<in> set h then h else h @ [idx])"

fun add_until_hist :: "int \<Rightarrow> int list \<Rightarrow> int list \<Rightarrow> int list" where
  "add_until_hist total_options [] h = h"
| "add_until_hist total_options (idx # rest) h =
     (let h = set_add idx h
      in if int (card (set h)) \<ge> total_options then h
         else add_until_hist total_options rest h)"

text \<open>
  \<^verbatim>\<open>try_add\<close> (lines 100-114): it returns at once (line 102), or shuffles the
  candidates of lines 103-109 and adds up to \<open>target\<close> of them.
\<close>

inductive try_add_rel ::
  "'r shuffle_rel \<Rightarrow> dataframe \<Rightarrow> row \<Rightarrow> int \<Rightarrow> mask \<Rightarrow> int \<Rightarrow> bool
     \<Rightarrow> int list \<times> 'r \<Rightarrow> int list \<times> 'r \<Rightarrow> bool"
  for shuf df correct_row total_options m target different_make
where
  try_add_return:
    "int (card (set h)) \<ge> total_options \<or> target \<le> 0 \<Longrightarrow>
     try_add_rel shuf df correct_row total_options m target different_make (h, g) (h, g)"
| try_add_shuffled:
    "\<not> (int (card (set h)) \<ge> total_options \<or> target \<le> 0) \<Longrightarrow>
     shuf g (quota_candidates df correct_row m different_make (set h)) (candidates, g') \<Longrightarrow>
     try_add_rel shuf df correct_row total_options m target different_make (h, g)
       (add_until_hist total_options (take (nat target) candidates) h, g')"

text \<open>
  The fill phase (lines 136-173): nothing when the set is full, else the remaining
  labels are shuffled, ordered by the difficulty and added.
\<close>

inductive fill_phase_rel ::
  "'r shuffle_rel \<Rightarrow> dataframe \<Rightarrow> row \<Rightarrow> int \<Rightarrow> string \<Rightarrow> int list \<times> 'r \<Rightarrow> int list \<times> 'r \<Rightarrow> bool"
  for shuf df correct_row total_options difficulty
where
  fill_not_needed:
    "\<not> int (card (set h)) < total_options \<Longrightarrow>
     fill_phase_rel shuf df correct_row total_options difficulty (h, g) (h, g)"
| fill_shuffled:
    "int (card (set h)) < total_options \<Longrightarrow>
     shuf g (filter (\<lambda>idx. idx \<notin> set h) (df_index df)) (remaining_indices, g') \<Longrightarrow>
     fill_phase_rel shuf df correct_row total_options difficulty (h, g)
       (add_until_hist total_options (fill_order df correct_row difficulty remaining_indices) h, g')"

text \<open>
  The selection (lines 73-173): from the set of the correct identifier alone, the three
  quotas and the fill phase, each from the state the one before left.
\<close>

inductive select_ids_rel ::
  "'r shuffle_rel \<Rightarrow> dataframe \<Rightarrow> row \<Rightarrow> int \<Rightarrow> int \<Rightarrow> string \<Rightarrow> 'r \<Rightarrow> int list \<times> 'r \<Rightarrow> bool"
  for shuf df correct_row correct_idx total_options difficulty
where
  select_phases:
    "try_add_rel shuf df correct_row total_options (same_make_mask correct_row correct_idx)
       (same_make (plan_get difficulty)) False ([correct_idx], rng) st1 \<Longrightarrow>
     try_add_rel shuf df correct_row total_options (same_model_mask correct_row correct_idx)
       (same_model (plan_get difficulty)) False st1 st2 \<Longrightarrow>
     try_add_rel shuf df correct_row total_options (same_year_mask correct_row correct_idx)
       (same_year (plan_get difficulty)) (difficulty = ''easy'') st2 st3 \<Longrightarrow>
     fill_phase_rel shuf df correct_row total_options difficulty st3 st4 \<Longrightarrow>
     select_ids_rel shuf df correct_row correct_idx total_options difficulty rng st4"

text \<open>
  The generator the call starts with (lines 61-62): the one passed in, or a fresh one.
\<close>

definition start_rng :: "('r \<Rightarrow> bool) \<Rightarrow> 'r option \<Rightarrow> 'r \<Rightarrow> bool" where
  "start_rng fresh rng g = (case rng of None \<Rightarrow> fresh g | Some g0 \<Rightarrow> g = g0)"

text \<open>
  \<^verbatim>\<open>generate_options\<close> (lines 53-188), one rule for each way the call ends: the
  three raises and the return.
\<close>

inductive generate_options_rel ::
  "'r shuffle_rel \<Rightarrow> listing_rel \<Rightarrow> ('r \<Rightarrow> bool) \<Rightarrow> dataframe \<Rightarrow> int \<Rightarrow> int \<Rightarrow> string \<Rightarrow> 'r option
     \<Rightarrow> error + (OptionItem list \<times> 'r) \<Rightarrow> bool"
  for shuf listing fresh df correct_idx total_options difficulty rng
where
  raise_empty:
    "df = [] \<Longrightarrow>
     generate_options_rel shuf listing fresh df correct_idx total_options difficulty rng
       (Inl EmptyDataset)"
| raise_unknown:
    "df \<noteq> [] \<Longrightarrow> map_of df correct_idx = None \<Longrightarrow>
     generate_options_rel shuf listing fresh df correct_idx total_options difficulty rng
       (Inl UnknownRecord)"
| raise_insufficient:
    "df \<noteq> [] \<Longrightarrow> map_of df correct_idx = Some correct_row \<Longrightarrow> start_rng fresh rng g0 \<Longrightarrow>
     select_ids_rel shuf df correct_row correct_idx (clamp_total total_options df)
       (lower difficulty) g0 (h, g) \<Longrightarrow>
     listing h selected_list \<Longrightarrow>
     int (length selected_list) < clamp_total total_options df \<Longrightarrow>
     generate_options_rel shuf listing fresh df correct_idx total_options difficulty rng
       (Inl InsufficientCandidates)"
| return_items:
    "df \<noteq> [] \<Longrightarrow> map_of df correct_idx = Some correct_row \<Longrightarrow> start_rng fresh rng g0 \<Longrightarrow>
     select_ids_rel shuf df correct_row correct_idx (clamp_total total_options df)
       (lower difficulty) g0 (h, g) \<Longrightarrow>
     listing h selected_list \<Longrightarrow>
     \<not> int (length selected_list) < clamp_total total_options df \<Longrightarrow>
     shuf g selected_list (shuffled_list, g') \<Longrightarrow>
     generate_options_rel shuf listing fresh df correct_idx total_options difficulty rng
       (case build_items df (take (nat (clamp_total total_options df)) shuffled_list) of
          Inl e \<Rightarrow> Inl e
        | Inr items \<Rightarrow> Inr (items, g'))"

text \<open>
  The relations of a shuffle function and of a listing function, a generator that may
  give any permutation, and a second generator for the examples.
\<close>

definition shuffle_graph :: "'r shuffler \<Rightarrow> 'r shuffle_rel" where
  "shuffle_graph shuffle = (\<lambda>g xs p. p = shuffle g xs)"

definition listing_graph :: "(int set \<Rightarrow> int list) \<Rightarrow> listing_rel" where
  "listing_graph set_iter = (\<lambda>h l. l = set_iter (set h))"

definition any_shuffle :: "'r shuffle_rel" where
  "any_shuffle g xs p = (mset (fst p) = mset xs)"

definition rev_shuffle :: "nat shuffler" where
  "rev_shuffle g xs = (rev xs, Suc g)"

section \<open>Shuffles and the adding loop\<close>

lemma shuffle_set: "shuffle_permutes shuffle \<Longrightarrow> set (fst (shuffle rng xs)) = set xs"
  unfolding shuffle_permutes_def by (metis set_mset_mset)

lemma shuffle_length: "shuffle_permutes shuffle \<Longrightarrow> length (fst (shuffle rng xs)) = length xs"
  unfolding shuffle_permutes_def by (metis size_mset)

lemma shuffle_distinct: "shuffle_permutes shuffle \<Longrightarrow> distinct (fst (shuffle rng xs)) = distinct xs"
  unfolding shuffle_permutes_def by (metis mset_eq_imp_distinct_iff)

lemma add_until_finite: "finite S \<Longrightarrow> finite (add_until t xs S)"
  by (induction xs arbitrary: S) (auto simp: Let_def)

lemma add_until_lower: "S \<subseteq> add_until t xs S"
proof (induction xs arbitrary: S)
  case Nil
  show ?case by simp
next
  case (Cons x xs)
  have "insert x S \<subseteq> add_until t xs (insert x S)" by (rule Cons.IH)
  then show ?case by (auto simp: Let_def)
qed

lemma add_until_upper: "add_until t xs S \<subseteq> S \<union> set xs"
proof (induction xs arbitrary: S)
  case Nil
  show ?case by simp
next
  case (Cons x xs)
  have "add_until t xs (insert x S) \<subseteq> insert x S \<union> set xs" by (rule Cons.IH)
  then show ?case by (auto simp: Let_def)
qed

lemma add_until_card_le:
  "finite S \<Longrightarrow> int (card S) < t \<Longrightarrow> int (card (add_until t xs S)) \<le> t"
proof (induction xs arbitrary: S)
  case Nil
  then show ?case by simp
next
  case (Cons x xs)
  have fin: "finite (insert x S)" using Cons.prems by simp
  have le: "int (card (insert x S)) \<le> t"
    using Cons.prems by (simp add: card_insert_if)
  show ?case
  proof (cases "int (card (insert x S)) \<ge> t")
    case True
    then show ?thesis using le by (simp add: Let_def)
  next
    case False
    then have "int (card (insert x S)) < t" by simp
    from Cons.IH [OF fin this] False show ?thesis by (simp add: Let_def)
  qed
qed

lemma add_until_reaches:
  "finite S \<Longrightarrow> t \<le> int (card (S \<union> set xs)) \<Longrightarrow> t \<le> int (card (add_until t xs S))"
proof (induction xs arbitrary: S)
  case Nil
  then show ?case by simp
next
  case (Cons x xs)
  have fin: "finite (insert x S)" using Cons.prems by simp
  have eq: "insert x S \<union> set xs = S \<union> set (x # xs)" by auto
  show ?case
  proof (cases "int (card (insert x S)) \<ge> t")
    case True
    then show ?thesis by (simp add: Let_def)
  next
    case False
    have "t \<le> int (card (add_until t xs (insert x S)))"
      using Cons.IH [OF fin] Cons.prems(2) eq by simp
    with False show ?thesis by (simp add: Let_def)
  qed
qed

section \<open>The quota phase\<close>

lemma candidate_indices_subset: "set (candidate_indices df m S) \<subseteq> set (df_index df) - S"
  by (auto simp: candidate_indices_def df_index_def)

lemma try_add_skip:
  "int (card S) \<ge> t \<or> target \<le> 0 \<Longrightarrow> try_add shuffle df crow t m target dm (S, g) = (S, g)"
  by (simp add: try_add_def)

lemma try_add_run:
  "\<not> (int (card S) \<ge> t \<or> target \<le> 0) \<Longrightarrow>
   try_add shuffle df crow t m target dm (S, g) =
     (add_until t (take (nat target) (fst (shuffle g (quota_candidates df crow m dm S)))) S,
      snd (shuffle g (quota_candidates df crow m dm S)))"
  by (simp add: try_add_def quota_candidates_def Let_def split_beta)

lemma try_add_added:
  assumes "shuffle_permutes shuffle"
  shows "fst (try_add shuffle df crow t m target dm (S, g)) - S \<subseteq> set (quota_candidates df crow m dm S)"
proof (cases "int (card S) \<ge> t \<or> target \<le> 0")
  case True
  then show ?thesis by (simp add: try_add_skip)
next
  case False
  let ?cs = "fst (shuffle g (quota_candidates df crow m dm S))"
  have "add_until t (take (nat target) ?cs) S \<subseteq> S \<union> set (take (nat target) ?cs)"
    by (rule add_until_upper)
  moreover have "set (take (nat target) ?cs) \<subseteq> set ?cs" by (rule set_take_subset)
  moreover have "set ?cs = set (quota_candidates df crow m dm S)"
    by (rule shuffle_set [OF assms])
  moreover have "fst (try_add shuffle df crow t m target dm (S, g)) = add_until t (take (nat target) ?cs) S"
    by (simp add: try_add_run [OF False])
  ultimately show ?thesis by auto
qed

lemma quota_candidates_subset: "set (quota_candidates df crow m dm S) \<subseteq> set (df_index df) - S"
  using candidate_indices_subset [of df m S] by (auto simp: quota_candidates_def)

lemma try_add_lower: "S \<subseteq> fst (try_add shuffle df crow t m target dm (S, g))"
proof (cases "int (card S) \<ge> t \<or> target \<le> 0")
  case True
  then show ?thesis by (simp add: try_add_skip)
next
  case False
  then show ?thesis using add_until_lower by (simp add: try_add_run)
qed

lemma try_add_inv:
  assumes sh: "shuffle_permutes shuffle" and inv: "selection_inv df c t S"
  shows "selection_inv df c t (fst (try_add shuffle df crow t m target dm (S, g)))"
proof (cases "int (card S) \<ge> t \<or> target \<le> 0")
  case True
  then show ?thesis using inv by (simp add: try_add_skip)
next
  case False
  let ?S' = "fst (try_add shuffle df crow t m target dm (S, g))"
  have fin: "finite S" using inv by (simp add: selection_inv_def)
  have "finite ?S'" using fin by (simp add: try_add_run [OF False] add_until_finite)
  moreover have "c \<in> ?S'"
    using try_add_lower [of S shuffle df crow t m target dm g] inv by (auto simp: selection_inv_def)
  moreover have "?S' \<subseteq> set (df_index df)"
    using try_add_added [OF sh, of df crow t m target dm S g] quota_candidates_subset [of df crow m dm S] inv
    by (auto simp: selection_inv_def)
  moreover have "int (card ?S') \<le> t"
    using fin False by (simp add: try_add_run [OF False] add_until_card_le)
  ultimately show ?thesis by (simp add: selection_inv_def)
qed

section \<open>The fill phase\<close>

lemma set_fill_order: "set (fill_order df crow d xs) = set xs"
  by (auto simp: fill_order_def)

lemma fill_phase_skip:
  "\<not> int (card S) < t \<Longrightarrow> fill_phase shuffle df crow t d (S, g) = (S, g)"
  by (simp add: fill_phase_def)

lemma fill_phase_run:
  "int (card S) < t \<Longrightarrow>
   fill_phase shuffle df crow t d (S, g) =
     (add_until t
        (fill_order df crow d (fst (shuffle g (filter (\<lambda>idx. idx \<notin> S) (df_index df))))) S,
      snd (shuffle g (filter (\<lambda>idx. idx \<notin> S) (df_index df))))"
  by (simp add: fill_phase_def fill_order_def Let_def split_beta)

lemma fill_phase_lower: "S \<subseteq> fst (fill_phase shuffle df crow t d (S, g))"
  using add_until_lower by (cases "int (card S) < t") (simp_all add: fill_phase_run fill_phase_skip)

lemma fill_phase_inv:
  assumes sh: "shuffle_permutes shuffle" and inv: "selection_inv df c t S"
  shows "selection_inv df c t (fst (fill_phase shuffle df crow t d (S, g)))"
proof (cases "int (card S) < t")
  case False
  then show ?thesis using inv by (simp add: fill_phase_skip)
next
  case True
  let ?rem = "filter (\<lambda>idx. idx \<notin> S) (df_index df)"
  let ?ord = "fill_order df crow d (fst (shuffle g ?rem))"
  let ?S' = "add_until t ?ord S"
  have fin: "finite S" using inv by (simp add: selection_inv_def)
  have ord: "set ?ord = set ?rem" by (simp add: set_fill_order shuffle_set [OF sh])
  have "finite ?S'" using fin by (rule add_until_finite)
  moreover have "c \<in> ?S'" using add_until_lower [of S t ?ord] inv by (auto simp: selection_inv_def)
  moreover have "?S' \<subseteq> set (df_index df)"
    using add_until_upper [of t ?ord S] ord inv by (auto simp: selection_inv_def)
  moreover have "int (card ?S') \<le> t" using fin True by (rule add_until_card_le)
  ultimately show ?thesis by (simp add: fill_phase_run [OF True] selection_inv_def)
qed

lemma fill_phase_reaches:
  assumes sh: "shuffle_permutes shuffle" and inv: "selection_inv df c t S"
    and uniq: "unique_index df" and le: "t \<le> int (length df)"
  shows "t \<le> int (card (fst (fill_phase shuffle df crow t d (S, g))))"
proof (cases "int (card S) < t")
  case False
  then show ?thesis by (simp add: fill_phase_skip)
next
  case True
  let ?rem = "filter (\<lambda>idx. idx \<notin> S) (df_index df)"
  let ?ord = "fill_order df crow d (fst (shuffle g ?rem))"
  have fin: "finite S" using inv by (simp add: selection_inv_def)
  have ord: "set ?ord = set ?rem" by (simp add: set_fill_order shuffle_set [OF sh])
  have "S \<union> set ?ord = set (df_index df)" using ord inv by (auto simp: selection_inv_def)
  moreover have "card (set (df_index df)) = length df"
    using uniq distinct_card [of "df_index df"] by (simp add: unique_index_def df_index_def)
  ultimately have "t \<le> int (card (S \<union> set ?ord))" using le by simp
  with fin have "t \<le> int (card (add_until t ?ord S))" by (rule add_until_reaches)
  then show ?thesis by (simp add: fill_phase_run [OF True])
qed

section \<open>The selection as a whole\<close>

lemma try_add_inv_st:
  "shuffle_permutes shuffle \<Longrightarrow> selection_inv df c t (fst st) \<Longrightarrow>
   selection_inv df c t (fst (try_add shuffle df crow t m target dm st))"
  by (cases st) (simp add: try_add_inv)

lemma fill_phase_inv_st:
  "shuffle_permutes shuffle \<Longrightarrow> selection_inv df c t (fst st) \<Longrightarrow>
   selection_inv df c t (fst (fill_phase shuffle df crow t d st))"
  by (cases st) (simp add: fill_phase_inv)

lemma fill_phase_reaches_st:
  "shuffle_permutes shuffle \<Longrightarrow> selection_inv df c t (fst st) \<Longrightarrow> unique_index df \<Longrightarrow>
   t \<le> int (length df) \<Longrightarrow> t \<le> int (card (fst (fill_phase shuffle df crow t d st)))"
  by (cases st) (simp add: fill_phase_reaches)

lemma selection_inv_init:
  "correct_idx \<in> set (df_index df) \<Longrightarrow> 1 \<le> t \<Longrightarrow> selection_inv df correct_idx t {correct_idx}"
  by (simp add: selection_inv_def)

lemma quota_phases_inv:
  assumes sh: "shuffle_permutes shuffle" and cin: "c \<in> set (df_index df)" and t1: "1 \<le> t"
  shows "selection_inv df c t
           (fst (same_year_phase shuffle df crow c t d
                  (same_model_phase shuffle df crow c t d
                     (same_make_phase shuffle df crow c t d ({c}, g)))))"
proof -
  have "selection_inv df c t (fst ({c}, g))" using cin t1 by (simp add: selection_inv_init)
  then have "selection_inv df c t (fst (same_make_phase shuffle df crow c t d ({c}, g)))"
    unfolding same_make_phase_def by (rule try_add_inv_st [OF sh])
  then have "selection_inv df c t
      (fst (same_model_phase shuffle df crow c t d (same_make_phase shuffle df crow c t d ({c}, g))))"
    unfolding same_model_phase_def by (rule try_add_inv_st [OF sh])
  then show ?thesis
    unfolding same_year_phase_def by (rule try_add_inv_st [OF sh])
qed

lemma select_ids_inv:
  assumes "shuffle_permutes shuffle" and "c \<in> set (df_index df)" and "1 \<le> t"
  shows "selection_inv df c t (fst (select_ids shuffle df crow c t d g))"
  unfolding select_ids_def
  by (rule fill_phase_inv_st [OF assms(1) quota_phases_inv [OF assms]])

lemma select_ids_reaches:
  assumes "shuffle_permutes shuffle" and "c \<in> set (df_index df)" and "1 \<le> t"
    and "unique_index df" and "t \<le> int (length df)"
  shows "t \<le> int (card (fst (select_ids shuffle df crow c t d g)))"
  unfolding select_ids_def
  by (rule fill_phase_reaches_st [OF assms(1) quota_phases_inv [OF assms(1-3)] assms(4,5)])

section \<open>The outcomes of the call\<close>

lemma build_items_present:
  "set xs \<subseteq> set (df_index df) \<Longrightarrow> \<exists>items. build_items df xs = Inr items \<and> map row_idx items = xs"
proof (induction xs)
  case Nil
  show ?case by simp
next
  case (Cons x xs)
  then obtain items where items: "build_items df xs = Inr items" "map row_idx items = xs" by auto
  from Cons.prems have "x \<in> fst ` set df" by (simp add: df_index_def)
  then obtain r where "map_of df x = Some r"
    by (metis map_of_eq_None_iff not_None_eq)
  with items show ?case by simp
qed

lemma index_iff_loc: "c \<in> set (df_index df) \<longleftrightarrow> map_of df c \<noteq> None"
  by (simp add: df_index_def map_of_eq_None_iff)

lemma generate_options_empty:
  "generate_options shuffle set_iter fresh [] c t0 d rng = Inl EmptyDataset"
  by (simp add: generate_options_def)

lemma generate_options_unknown:
  "df \<noteq> [] \<Longrightarrow> map_of df c = None \<Longrightarrow>
   generate_options shuffle set_iter fresh df c t0 d rng = Inl UnknownRecord"
  by (simp add: generate_options_def)

lemma generate_options_found:
  assumes "df \<noteq> []" and "map_of df c = Some crow"
  shows "generate_options shuffle set_iter fresh df c t0 d rng =
     (case select_ids shuffle df crow c (clamp_total t0 df) (lower d) (rng_of fresh rng) of
        (S, g) \<Rightarrow>
          if int (length (set_iter S)) < clamp_total t0 df then Inl InsufficientCandidates
          else case shuffle g (set_iter S) of (l, g') \<Rightarrow>
            (case build_items df (take (nat (clamp_total t0 df)) l) of
               Inl e \<Rightarrow> Inl e | Inr items \<Rightarrow> Inr (items, g')))"
  using assms unfolding generate_options_def clamp_total_def rng_of_def Let_def
  by simp

lemma mset_distinct_list: "distinct xs \<Longrightarrow> mset xs = mset_set (set xs)"
  by (simp add: mset_set_set)

lemma generate_options_short:
  assumes "df \<noteq> []" and "map_of df c = Some crow"
    and "int (length (set_iter (fst (select_ids shuffle df crow c (clamp_total t0 df) (lower d) (rng_of fresh rng)))))
          < clamp_total t0 df"
  shows "generate_options shuffle set_iter fresh df c t0 d rng = Inl InsufficientCandidates"
  using assms(3) by (simp add: generate_options_found [OF assms(1,2)] split_beta)

lemma generate_options_full:
  assumes sh: "shuffle_permutes shuffle" and si: "lists_members set_iter"
    and ne: "df \<noteq> []" and loc: "map_of df c = Some crow"
    and S: "S = fst (select_ids shuffle df crow c (clamp_total t0 df) (lower d) (rng_of fresh rng))"
    and g: "g = snd (select_ids shuffle df crow c (clamp_total t0 df) (lower d) (rng_of fresh rng))"
    and full: "clamp_total t0 df \<le> int (card S)"
  shows "\<exists>items. generate_options shuffle set_iter fresh df c t0 d rng
            = Inr (items, snd (shuffle g (set_iter S)))
          \<and> map row_idx items = fst (shuffle g (set_iter S))
          \<and> mset (map row_idx items) = mset_set S
          \<and> int (card S) = clamp_total t0 df"
proof -
  have cin: "c \<in> set (df_index df)" using loc by (simp add: index_iff_loc)
  have t1: "1 \<le> clamp_total t0 df" by (simp add: clamp_total_def)
  have inv: "selection_inv df c (clamp_total t0 df) S"
    unfolding S using sh cin t1 by (rule select_ids_inv)
  then have fin: "finite S" and sub: "S \<subseteq> set (df_index df)"
    and le: "int (card S) \<le> clamp_total t0 df"
    by (simp_all add: selection_inv_def)
  have card: "int (card S) = clamp_total t0 df" using le full by simp
  have set_si: "set (set_iter S) = S" and dist_si: "distinct (set_iter S)"
    using si fin by (simp_all add: lists_members_def)
  have len_si: "length (set_iter S) = card S"
    using distinct_card [OF dist_si] set_si by simp
  let ?l = "fst (shuffle g (set_iter S))"
  have len_l: "length ?l = card S" using shuffle_length [OF sh, of g "set_iter S"] len_si by simp
  have take: "take (nat (clamp_total t0 df)) ?l = ?l" using len_l card by simp
  have "set ?l \<subseteq> set (df_index df)" using shuffle_set [OF sh, of g "set_iter S"] set_si sub by simp
  then obtain items where items: "build_items df ?l = Inr items" "map row_idx items = ?l"
    using build_items_present by blast
  have "mset ?l = mset (set_iter S)" using sh by (simp add: shuffle_permutes_def)
  also have "\<dots> = mset_set S" using mset_distinct_list [OF dist_si] set_si by simp
  finally have ms: "mset ?l = mset_set S" .
  have sel: "select_ids shuffle df crow c (clamp_total t0 df) (lower d) (rng_of fresh rng) = (S, g)"
    by (simp add: S g)
  have nlt: "\<not> int (length (set_iter S)) < clamp_total t0 df" using len_si card by simp
  have "generate_options shuffle set_iter fresh df c t0 d rng = Inr (items, snd (shuffle g (set_iter S)))"
    unfolding generate_options_found [OF ne loc] sel
    using nlt items(1) take by (simp add: split_beta)
  moreover have "mset (map row_idx items) = mset_set S" unfolding items(2) by (rule ms)
  ultimately show ?thesis using items(2) card by blast
qed

lemma generate_options_cases [consumes 2, case_names empty unknown short full]:
  assumes sh: "shuffle_permutes shuffle" and si: "lists_members set_iter"
  obtains
    (empty) "df = []"
      "generate_options shuffle set_iter fresh df c t0 d rng = Inl EmptyDataset"
  | (unknown) "df \<noteq> []" "c \<notin> set (df_index df)"
      "generate_options shuffle set_iter fresh df c t0 d rng = Inl UnknownRecord"
  | (short) crow S where "df \<noteq> []" "map_of df c = Some crow"
      "S = fst (select_ids shuffle df crow c (clamp_total t0 df) (lower d) (rng_of fresh rng))"
      "selection_inv df c (clamp_total t0 df) S"
      "int (card S) < clamp_total t0 df"
      "generate_options shuffle set_iter fresh df c t0 d rng = Inl InsufficientCandidates"
  | (full) crow S items g' where "df \<noteq> []" "map_of df c = Some crow"
      "S = fst (select_ids shuffle df crow c (clamp_total t0 df) (lower d) (rng_of fresh rng))"
      "selection_inv df c (clamp_total t0 df) S"
      "int (card S) = clamp_total t0 df"
      "generate_options shuffle set_iter fresh df c t0 d rng = Inr (items, g')"
      "mset (map row_idx items) = mset_set S"
proof (cases "df = []")
  case True
  then show ?thesis using empty by (simp add: generate_options_empty)
next
  case ne: False
  show ?thesis
  proof (cases "map_of df c")
    case None
    then have "c \<notin> set (df_index df)" by (simp add: index_iff_loc)
    then show ?thesis using unknown ne None by (simp add: generate_options_unknown)
  next
    case (Some crow)
    define S where "S = fst (select_ids shuffle df crow c (clamp_total t0 df) (lower d) (rng_of fresh rng))"
    define g where "g = snd (select_ids shuffle df crow c (clamp_total t0 df) (lower d) (rng_of fresh rng))"
    have cin: "c \<in> set (df_index df)" using Some by (simp add: index_iff_loc)
    have t1: "1 \<le> clamp_total t0 df" by (simp add: clamp_total_def)
    have inv: "selection_inv df c (clamp_total t0 df) S"
      unfolding S_def using sh cin t1 by (rule select_ids_inv)
    show ?thesis
    proof (cases "int (card S) < clamp_total t0 df")
      case True
      have fin: "finite S" using inv by (simp add: selection_inv_def)
      have "length (set_iter S) = card S"
        using si fin distinct_card [of "set_iter S"] by (simp add: lists_members_def)
      then have "generate_options shuffle set_iter fresh df c t0 d rng = Inl InsufficientCandidates"
        using True generate_options_short [OF ne Some, of set_iter shuffle t0 d fresh rng]
        by (simp add: S_def)
      then show ?thesis using short [OF ne Some S_def inv True] by simp
    next
      case False
      then have "clamp_total t0 df \<le> int (card S)" by simp
      from generate_options_full [OF sh si ne Some S_def g_def this]
      obtain items where
        "generate_options shuffle set_iter fresh df c t0 d rng = Inr (items, snd (shuffle g (set_iter S)))"
        "mset (map row_idx items) = mset_set S" "int (card S) = clamp_total t0 df"
        by blast
      then show ?thesis using full [OF ne Some S_def inv] by simp
    qed
  qed
qed

lemma mset_rotate1_list: "mset (rotate1 xs) = mset xs"
  by (cases xs) simp_all

lemma mset_rotate_list: "mset (rotate n xs) = mset xs"
  by (induction n) (simp_all add: mset_rotate1_list)

lemma rot_shuffle_permutes: "shuffle_permutes rot_shuffle"
  by (simp add: shuffle_permutes_def rot_shuffle_def mset_rotate_list)

lemma sorted_lists_members: "lists_members sorted_list_of_set"
  by (simp add: lists_members_def)

lemma count_row_idx:
  "length (filter (\<lambda>item. row_idx item = c) items) = count (mset (map row_idx items)) c"
  by (induction items) auto

lemma distinct_of_mset_set: "finite S \<Longrightarrow> mset xs = mset_set S \<Longrightarrow> distinct xs"
proof -
  assume fin: "finite S" and eq: "mset xs = mset_set S"
  have "set xs = S" using fin eq by (metis finite_set_mset_mset_set set_mset_mset)
  then show "distinct xs" using fin eq by (simp add: distinct_count_atmost_1)
qed

lemma generate_options_returned:
  assumes "shuffle_permutes shuffle" and "lists_members set_iter"
    and "generate_options shuffle set_iter fresh df c t0 d rng = Inr (opts, g')"
  obtains S where "finite S" and "c \<in> S" and "int (card S) = clamp_total t0 df"
    and "mset (map row_idx opts) = mset_set S"
  using assms(1,2)
proof (cases rule: generate_options_cases [where df = df and c = c and ?t0.0 = t0 and d = d
      and fresh = fresh and rng = rng])
  case (full crow S items g'')
  have "finite S" and "c \<in> S" using full(4) by (simp_all add: selection_inv_def)
  moreover have "opts = items" using full(6) assms(3) by simp
  ultimately show ?thesis using that [of S] full(5,7) by simp
qed (use assms(3) in simp_all)

lemma returned_length:
  assumes "finite S" and "mset (map row_idx opts) = mset_set S"
  shows "length opts = card S"
proof -
  have "length opts = size (mset (map row_idx opts))" by simp
  also have "\<dots> = card S" unfolding assms(2) by simp
  finally show ?thesis .
qed

lemma clamp_total_le: "2 \<le> length df \<Longrightarrow> clamp_total t0 df \<le> int (length df)"
  by (simp add: clamp_total_def)

lemma generate_options_returns:
  assumes sh: "shuffle_permutes shuffle" and si: "lists_members set_iter"
    and uniq: "unique_index df" and two: "2 \<le> length df" and cin: "c \<in> set (df_index df)"
  shows "\<exists>opts g'. generate_options shuffle set_iter fresh df c t0 d rng = Inr (opts, g')"
  using sh si
proof (cases rule: generate_options_cases [where df = df and c = c and ?t0.0 = t0 and d = d
      and fresh = fresh and rng = rng])
  case empty
  then show ?thesis using two by simp
next
  case unknown
  then show ?thesis using cin by simp
next
  case (short crow S)
  have "clamp_total t0 df \<le> int (card S)"
    unfolding short(3)
    by (rule select_ids_reaches [OF sh cin _ uniq clamp_total_le [OF two]])
       (simp add: clamp_total_def)
  then show ?thesis using short(5) by simp
next
  case (full crow S items g')
  then show ?thesis by blast
qed

lemma single_row_short:
  assumes sh: "shuffle_permutes shuffle" and si: "lists_members set_iter"
    and one: "length df = 1" and cin: "c \<in> set (df_index df)"
  shows "generate_options shuffle set_iter fresh df c t0 d rng = Inl InsufficientCandidates"
  using sh si
proof (cases rule: generate_options_cases [where df = df and c = c and ?t0.0 = t0 and d = d
      and fresh = fresh and rng = rng])
  case empty
  then show ?thesis using one by simp
next
  case unknown
  then show ?thesis using cin by simp
next
  case (short crow S)
  then show ?thesis by simp
next
  case (full crow S items g')
  have "S \<subseteq> set (df_index df)" using full(4) by (simp add: selection_inv_def)
  then have "card S \<le> card (set (df_index df))" by (simp add: card_mono)
  also have "\<dots> \<le> length df" unfolding df_index_def using card_length [of "map fst df"] by simp
  finally have "int (card S) \<le> 1" using one by simp
  moreover have "clamp_total t0 df = 2" using one by (simp add: clamp_total_def)
  ultimately show ?thesis using full(5) by simp
qed

section \<open>The rows behind the added identifiers\<close>

lemma loc_make_en_present:
  "idx \<in> set (df_index df) \<Longrightarrow> \<exists>r. map_of df idx = Some r \<and> loc_make_en df idx = Some (make_en r)"
  by (cases "map_of df idx") (simp_all add: loc_make_en_def index_iff_loc)

lemma candidate_indices_row:
  assumes "unique_index df" and "idx \<in> set (candidate_indices df m S)"
  shows "\<exists>r. map_of df idx = Some r \<and> m (idx, r) \<and> idx \<notin> S"
proof -
  from assms(2) obtain r where "(idx, r) \<in> set df" "m (idx, r)" "idx \<notin> S"
    by (auto simp: candidate_indices_def)
  moreover have "map_of df idx = Some r"
    using assms(1) \<open>(idx, r) \<in> set df\<close> by (simp add: unique_index_def df_index_def)
  ultimately show ?thesis by blast
qed

lemma quota_candidates_row:
  assumes "unique_index df" and "idx \<in> set (quota_candidates df crow m dm S)"
  shows "\<exists>r. map_of df idx = Some r \<and> m (idx, r) \<and> idx \<notin> S
           \<and> (dm \<longrightarrow> make_en r \<noteq> make_en crow)"
proof -
  have "idx \<in> set (candidate_indices df m S)"
    using assms(2) by (simp add: quota_candidates_def split: if_splits)
  from candidate_indices_row [OF assms(1) this]
  obtain r where r: "map_of df idx = Some r" "m (idx, r)" "idx \<notin> S" by blast
  have "dm \<longrightarrow> make_en r \<noteq> make_en crow"
    using assms(2) r(1) by (auto simp: quota_candidates_def loc_make_en_def)
  with r show ?thesis by blast
qed

lemma try_add_added_row:
  assumes "shuffle_permutes shuffle" and "unique_index df"
    and "idx \<in> fst (try_add shuffle df crow t m target dm (S, g))" and "idx \<notin> S"
  shows "\<exists>r. map_of df idx = Some r \<and> m (idx, r) \<and> (dm \<longrightarrow> make_en r \<noteq> make_en crow)"
proof -
  have "idx \<in> set (quota_candidates df crow m dm S)"
    using try_add_added [OF assms(1), of df crow t m target dm S g] assms(3,4) by blast
  from quota_candidates_row [OF assms(2) this] show ?thesis by blast
qed

section \<open>The difficulty string\<close>

lemma lower_char_idem: "lower_char (lower_char c) = lower_char c"
proof (cases "65 \<le> (of_char c :: nat) \<and> (of_char c :: nat) \<le> 90")
  case True
  then have low: "lower_char c = char_of (of_char c + 32 :: nat)"
    by (simp add: lower_char_def Let_def)
  have "(of_char (char_of (of_char c + 32 :: nat)) :: nat) = (of_char c + 32) mod 256"
    by (rule of_char_of)
  also have "\<dots> = of_char c + 32" using True by simp
  finally have "(of_char (char_of (of_char c + 32 :: nat)) :: nat) = of_char c + 32" .
  then have "lower_char (char_of (of_char c + 32 :: nat)) = char_of (of_char c + 32 :: nat)"
    using True by (simp add: lower_char_def Let_def)
  then show ?thesis by (simp only: low)
next
  case False
  then have "lower_char c = c" by (auto simp: lower_char_def Let_def)
  then show ?thesis by simp
qed

lemma lower_idem: "lower (lower s) = lower s"
  by (simp add: lower_def lower_char_idem)

lemma plan_get_unrecognized:
  "d \<notin> {''easy'', ''medium'', ''hard''} \<Longrightarrow> plan_get d = plan_get ''medium''"
  by (simp add: plan_get_def difficulty_plan_def)

lemma fill_phase_unrecognized:
  "d \<notin> {''easy'', ''medium'', ''hard''} \<Longrightarrow>
   fill_phase shuffle df crow t d st = fill_phase shuffle df crow t ''medium'' st"
  by (cases st; cases "int (card (fst st)) < t")
     (simp_all add: fill_phase_run fill_phase_skip fill_order_def)

lemma select_ids_unrecognized:
  assumes "d \<notin> {''easy'', ''medium'', ''hard''}"
  shows "select_ids shuffle df crow c t d g = select_ids shuffle df crow c t ''medium'' g"
proof -
  have ne: "d \<noteq> ''easy''" using assms by simp
  show ?thesis
    unfolding select_ids_def same_make_phase_def same_model_phase_def same_year_phase_def
      plan_get_unrecognized [OF assms] fill_phase_unrecognized [OF assms]
    using ne by simp
qed

lemma generate_options_select_cong:
  assumes "\<And>crow t g. select_ids shuffle df crow c t (lower d1) g
                      = select_ids shuffle df crow c t (lower d2) g"
  shows "generate_options shuffle set_iter fresh df c t0 d1 rng
           = generate_options shuffle set_iter fresh df c t0 d2 rng"
  unfolding generate_options_def Let_def by (simp only: assms)

lemma lower_medium: "lower ''medium'' = ''medium''"
  by code_simp

section \<open>The relation: one result from one generator state\<close>

lemma shuffle_determinedD:
  "shuffle_determined shuf \<Longrightarrow> shuf g xs p \<Longrightarrow> shuf g xs q \<Longrightarrow> p = q"
  unfolding shuffle_determined_def by blast

lemma listing_determinedD:
  "listing_determined listing \<Longrightarrow> listing h l \<Longrightarrow> listing h l' \<Longrightarrow> l = l'"
  unfolding listing_determined_def by blast

lemma start_rng_Some: "start_rng fresh (Some g) g0 \<longleftrightarrow> g0 = g"
  by (simp add: start_rng_def)

lemma try_add_rel_determined:
  assumes det: "shuffle_determined shuf"
    and a: "try_add_rel shuf df crow t m target dm st a"
    and b: "try_add_rel shuf df crow t m target dm st b"
  shows "a = b"
  using a
proof cases
  case (try_add_return h g)
  with b show ?thesis by cases auto
next
  case left: (try_add_shuffled h g cs g')
  from b show ?thesis
  proof cases
    case (try_add_return h2 g2)
    with left show ?thesis by auto
  next
    case (try_add_shuffled h2 g2 cs2 g2')
    with left have "shuf g (quota_candidates df crow m dm (set h)) (cs2, g2')" by simp
    with det left(4) have "(cs, g') = (cs2, g2')" by (rule shuffle_determinedD)
    with left try_add_shuffled show ?thesis by simp
  qed
qed

lemma fill_phase_rel_determined:
  assumes det: "shuffle_determined shuf"
    and a: "fill_phase_rel shuf df crow t d st a"
    and b: "fill_phase_rel shuf df crow t d st b"
  shows "a = b"
  using a
proof cases
  case (fill_not_needed h g)
  with b show ?thesis by cases auto
next
  case left: (fill_shuffled h g rs g')
  from b show ?thesis
  proof cases
    case (fill_not_needed h2 g2)
    with left show ?thesis by auto
  next
    case (fill_shuffled h2 g2 rs2 g2')
    with left have "shuf g (filter (\<lambda>idx. idx \<notin> set h) (df_index df)) (rs2, g2')" by simp
    with det left(4) have "(rs, g') = (rs2, g2')" by (rule shuffle_determinedD)
    with left fill_shuffled show ?thesis by simp
  qed
qed

lemma select_ids_rel_determined:
  assumes det: "shuffle_determined shuf"
    and a: "select_ids_rel shuf df crow c t d g a"
    and b: "select_ids_rel shuf df crow c t d g b"
  shows "a = b"
  using a
proof cases
  case left: (select_phases a1 a2 a3)
  from b show ?thesis
  proof cases
    case (select_phases b1 b2 b3)
    have "a1 = b1" using det left(1) select_phases(1) by (rule try_add_rel_determined)
    then have "a2 = b2" using try_add_rel_determined [OF det left(2)] select_phases(2) by simp
    then have "a3 = b3" using try_add_rel_determined [OF det left(3)] select_phases(3) by simp
    then show ?thesis using fill_phase_rel_determined [OF det left(4)] select_phases(4) by simp
  qed
qed

lemma generate_options_rel_unique:
  assumes det: "shuffle_determined shuf" and ldet: "listing_determined listing"
    and a: "generate_options_rel shuf listing fresh1 df c t0 d (Some g) r1"
    and b: "generate_options_rel shuf listing fresh2 df c t0 d (Some g) r2"
  shows "r1 = r2"
proof -
  have sel: "h1 = h2 \<and> g1 = g2 \<and> l1 = l2"
    if "map_of df c = Some crow1" "map_of df c = Some crow2"
      "start_rng fresh1 (Some g) s1" "start_rng fresh2 (Some g) s2"
      "select_ids_rel shuf df crow1 c (clamp_total t0 df) (lower d) s1 (h1, g1)"
      "select_ids_rel shuf df crow2 c (clamp_total t0 df) (lower d) s2 (h2, g2)"
      "listing h1 l1" "listing h2 l2"
    for crow1 crow2 s1 s2 h1 h2 g1 g2 l1 l2
  proof -
    have "crow1 = crow2" using that(1,2) by simp
    moreover have "s1 = s2" using that(3,4) by (simp add: start_rng_Some)
    ultimately have "(h1, g1) = (h2, g2)"
      using select_ids_rel_determined [OF det that(5)] that(6) by simp
    then show ?thesis using listing_determinedD [OF ldet that(7)] that(8) by simp
  qed
  from a show ?thesis
  proof cases
    case raise_empty
    with b show ?thesis by cases auto
  next
    case raise_unknown
    with b show ?thesis by cases auto
  next
    case left: (raise_insufficient crow1 s1 h1 g1 l1)
    from b show ?thesis
    proof cases
      case raise_empty
      with left show ?thesis by simp
    next
      case raise_unknown
      with left show ?thesis by simp
    next
      case (raise_insufficient crow2 s2 h2 g2 l2)
      with left show ?thesis by simp
    next
      case (return_items crow2 s2 h2 g2 l2 sl2 g2')
      from sel [OF left(3) return_items(3) left(4) return_items(4) left(5) return_items(5)
          left(6) return_items(6)]
      have "l1 = l2" by simp
      with left(7) return_items(7) show ?thesis by simp
    qed
  next
    case left: (return_items crow1 s1 h1 g1 l1 sl1 g1')
    from b show ?thesis
    proof cases
      case raise_empty
      with left show ?thesis by simp
    next
      case raise_unknown
      with left show ?thesis by simp
    next
      case (raise_insufficient crow2 s2 h2 g2 l2)
      from sel [OF left(3) raise_insufficient(3) left(4) raise_insufficient(4) left(5)
          raise_insufficient(5) left(6) raise_insufficient(6)]
      have "l1 = l2" by simp
      with left(7) raise_insufficient(7) show ?thesis by simp
    next
      case (return_items crow2 s2 h2 g2 l2 sl2 g2')
      from sel [OF left(3) return_items(3) left(4) return_items(4) left(5) return_items(5)
          left(6) return_items(6)]
      have eq: "g1 = g2" "l1 = l2" by simp_all
      have "(sl1, g1') = (sl2, g2')"
        using shuffle_determinedD [OF det left(8)] return_items(8) eq by simp
      then have eq2: "sl1 = sl2" "g1' = g2'" by simp_all
      show ?thesis unfolding left(1) return_items(1) eq2 by (rule refl)
    qed
  qed
qed

text \<open>
  The relation and the functions describe the same call: with the relations of a
  shuffle function and a listing function, the results the relation allows are the
  result of \<open>generate_options\<close>.
\<close>

lemma set_set_add: "set (set_add idx h) = insert idx (set h)"
  by (auto simp: set_add_def)

lemma set_add_until_hist: "set (add_until_hist t xs h) = add_until t xs (set h)"
  by (induction xs arbitrary: h) (simp_all add: Let_def set_set_add)

lemma try_add_rel_function:
  "\<exists>h'. try_add_rel (shuffle_graph sh) df crow t m target dm (h, g)
            (h', snd (try_add sh df crow t m target dm (set h, g)))
        \<and> set h' = fst (try_add sh df crow t m target dm (set h, g))"
proof (cases "int (card (set h)) \<ge> t \<or> target \<le> 0")
  case True
  then have "try_add_rel (shuffle_graph sh) df crow t m target dm (h, g) (h, g)"
    by (rule try_add_return)
  with True show ?thesis by (auto simp: try_add_skip)
next
  case False
  let ?cs = "quota_candidates df crow m dm (set h)"
  have "shuffle_graph sh g ?cs (fst (sh g ?cs), snd (sh g ?cs))"
    by (simp add: shuffle_graph_def)
  with False have "try_add_rel (shuffle_graph sh) df crow t m target dm (h, g)
      (add_until_hist t (take (nat target) (fst (sh g ?cs))) h, snd (sh g ?cs))"
    by (rule try_add_shuffled)
  then show ?thesis by (auto simp: try_add_run [OF False] set_add_until_hist)
qed

lemma fill_phase_rel_function:
  "\<exists>h'. fill_phase_rel (shuffle_graph sh) df crow t d (h, g)
            (h', snd (fill_phase sh df crow t d (set h, g)))
        \<and> set h' = fst (fill_phase sh df crow t d (set h, g))"
proof (cases "int (card (set h)) < t")
  case False
  then have "fill_phase_rel (shuffle_graph sh) df crow t d (h, g) (h, g)"
    by (rule fill_not_needed)
  with False show ?thesis by (auto simp: fill_phase_skip)
next
  case True
  let ?rs = "filter (\<lambda>idx. idx \<notin> set h) (df_index df)"
  have "shuffle_graph sh g ?rs (fst (sh g ?rs), snd (sh g ?rs))"
    by (simp add: shuffle_graph_def)
  with True have "fill_phase_rel (shuffle_graph sh) df crow t d (h, g)
      (add_until_hist t (fill_order df crow d (fst (sh g ?rs))) h, snd (sh g ?rs))"
    by (rule fill_shuffled)
  then show ?thesis by (auto simp: fill_phase_run [OF True] set_add_until_hist)
qed

lemma select_ids_rel_function:
  "\<exists>h'. select_ids_rel (shuffle_graph sh) df crow c t d g (h', snd (select_ids sh df crow c t d g))
        \<and> set h' = fst (select_ids sh df crow c t d g)"
proof -
  let ?f1 = "same_make_phase sh df crow c t d ({c}, g)"
  let ?f2 = "same_model_phase sh df crow c t d ?f1"
  let ?f3 = "same_year_phase sh df crow c t d ?f2"
  let ?f4 = "fill_phase sh df crow t d ?f3"
  obtain h1 where r1: "try_add_rel (shuffle_graph sh) df crow t (same_make_mask crow c)
        (same_make (plan_get d)) False ([c], g) (h1, snd ?f1)" and s1: "set h1 = fst ?f1"
    using try_add_rel_function [of sh df crow t "same_make_mask crow c" "same_make (plan_get d)"
        False "[c]" g]
    by (auto simp: same_make_phase_def)
  have f1: "?f1 = (set h1, snd ?f1)" using s1 by simp
  obtain h2 where r2: "try_add_rel (shuffle_graph sh) df crow t (same_model_mask crow c)
        (same_model (plan_get d)) False (h1, snd ?f1) (h2, snd ?f2)" and s2: "set h2 = fst ?f2"
    using try_add_rel_function [of sh df crow t "same_model_mask crow c" "same_model (plan_get d)"
        False h1 "snd ?f1"] f1
    by (auto simp: same_model_phase_def)
  have f2: "?f2 = (set h2, snd ?f2)" using s2 by simp
  obtain h3 where r3: "try_add_rel (shuffle_graph sh) df crow t (same_year_mask crow c)
        (same_year (plan_get d)) (d = ''easy'') (h2, snd ?f2) (h3, snd ?f3)"
      and s3: "set h3 = fst ?f3"
    using try_add_rel_function [of sh df crow t "same_year_mask crow c" "same_year (plan_get d)"
        "d = ''easy''" h2 "snd ?f2"] f2
    by (auto simp: same_year_phase_def)
  have f3: "?f3 = (set h3, snd ?f3)" using s3 by simp
  obtain h4 where r4: "fill_phase_rel (shuffle_graph sh) df crow t d (h3, snd ?f3) (h4, snd ?f4)"
      and s4: "set h4 = fst ?f4"
    using fill_phase_rel_function [of sh df crow t d h3 "snd ?f3"] f3 by auto
  have "select_ids_rel (shuffle_graph sh) df crow c t d g (h4, snd ?f4)"
    using r1 r2 r3 r4 by (rule select_phases)
  with s4 show ?thesis unfolding select_ids_def by blast
qed

lemma generate_options_rel_function:
  assumes start: "start_rng fresh rng g0"
  shows "generate_options_rel (shuffle_graph sh) (listing_graph si) fresh df c t0 d rng
           (generate_options sh si g0 df c t0 d (Some g0))"
proof (cases "df = []")
  case True
  then show ?thesis by (simp add: generate_options_empty raise_empty)
next
  case ne: False
  show ?thesis
  proof (cases "map_of df c")
    case None
    with ne show ?thesis by (simp add: generate_options_unknown raise_unknown)
  next
    case (Some crow)
    let ?sel = "select_ids sh df crow c (clamp_total t0 df) (lower d) g0"
    obtain h where rel: "select_ids_rel (shuffle_graph sh) df crow c (clamp_total t0 df) (lower d)
          g0 (h, snd ?sel)" and seth: "set h = fst ?sel"
      using select_ids_rel_function [of sh df crow c "clamp_total t0 df" "lower d" g0] by blast
    let ?l = "si (fst ?sel)"
    have lst: "listing_graph si h ?l" by (simp add: listing_graph_def seth)
    have fn: "generate_options sh si g0 df c t0 d (Some g0) =
        (if int (length ?l) < clamp_total t0 df then Inl InsufficientCandidates
         else case build_items df (take (nat (clamp_total t0 df)) (fst (sh (snd ?sel) ?l))) of
                Inl e \<Rightarrow> Inl e
              | Inr items \<Rightarrow> Inr (items, snd (sh (snd ?sel) ?l)))"
      by (simp add: generate_options_found [OF ne Some] rng_of_def split_beta)
    show ?thesis
    proof (cases "int (length ?l) < clamp_total t0 df")
      case True
      have "generate_options_rel (shuffle_graph sh) (listing_graph si) fresh df c t0 d rng
          (Inl InsufficientCandidates)"
        using ne Some start rel lst True by (rule raise_insufficient)
      with True fn show ?thesis by simp
    next
      case False
      have "shuffle_graph sh (snd ?sel) ?l (fst (sh (snd ?sel) ?l), snd (sh (snd ?sel) ?l))"
        by (simp add: shuffle_graph_def)
      with ne Some start rel lst False
      have "generate_options_rel (shuffle_graph sh) (listing_graph si) fresh df c t0 d rng
          (case build_items df (take (nat (clamp_total t0 df)) (fst (sh (snd ?sel) ?l))) of
             Inl e \<Rightarrow> Inl e
           | Inr items \<Rightarrow> Inr (items, snd (sh (snd ?sel) ?l)))"
        by (rule return_items)
      with False fn show ?thesis by simp
    qed
  qed
qed

lemma shuffle_graph_determined: "shuffle_determined (shuffle_graph sh)"
  by (simp add: shuffle_determined_def shuffle_graph_def)

lemma listing_graph_determined: "listing_determined (listing_graph si)"
  by (simp add: listing_determined_def listing_graph_def)

lemma generate_options_rel_graph:
  "generate_options_rel (shuffle_graph sh) (listing_graph si) fresh df c t0 d (Some g) r
     \<longleftrightarrow> r = generate_options sh si g df c t0 d (Some g)"
proof
  assume run: "generate_options_rel (shuffle_graph sh) (listing_graph si) fresh df c t0 d (Some g) r"
  have "start_rng fresh (Some g) g" by (simp add: start_rng_def)
  from generate_options_rel_unique [OF shuffle_graph_determined listing_graph_determined run
      generate_options_rel_function [OF this]]
  show "r = generate_options sh si g df c t0 d (Some g)" .
next
  assume r: "r = generate_options sh si g df c t0 d (Some g)"
  have "start_rng fresh (Some g) g" by (simp add: start_rng_def)
  then show
    "generate_options_rel (shuffle_graph sh) (listing_graph si) fresh df c t0 d (Some g) r"
    unfolding r by (rule generate_options_rel_function)
qed

text \<open>
  A relation that allows more shuffles allows more results.
\<close>

lemma try_add_rel_mono:
  assumes sub: "\<And>g xs p. shuf g xs p \<Longrightarrow> shuf' g xs p"
    and run: "try_add_rel shuf df crow t m target dm st st'"
  shows "try_add_rel shuf' df crow t m target dm st st'"
  using run
proof cases
  case (try_add_return h g)
  then show ?thesis by (simp add: try_add_rel.try_add_return)
next
  case (try_add_shuffled h g cs g')
  from try_add_shuffled(3) sub [OF try_add_shuffled(4)]
  show ?thesis unfolding try_add_shuffled(1,2) by (rule try_add_rel.try_add_shuffled)
qed

lemma fill_phase_rel_mono:
  assumes sub: "\<And>g xs p. shuf g xs p \<Longrightarrow> shuf' g xs p"
    and run: "fill_phase_rel shuf df crow t d st st'"
  shows "fill_phase_rel shuf' df crow t d st st'"
  using run
proof cases
  case (fill_not_needed h g)
  then show ?thesis by (simp add: fill_phase_rel.fill_not_needed)
next
  case (fill_shuffled h g rs g')
  from fill_shuffled(3) sub [OF fill_shuffled(4)]
  show ?thesis unfolding fill_shuffled(1,2) by (rule fill_phase_rel.fill_shuffled)
qed

lemma select_ids_rel_mono:
  assumes sub: "\<And>g xs p. shuf g xs p \<Longrightarrow> shuf' g xs p"
    and run: "select_ids_rel shuf df crow c t d g st"
  shows "select_ids_rel shuf' df crow c t d g st"
  using run
proof cases
  case (select_phases st1 st2 st3)
  show ?thesis
    by (rule select_ids_rel.select_phases
          [OF try_add_rel_mono [OF sub select_phases(1)] try_add_rel_mono [OF sub select_phases(2)]
              try_add_rel_mono [OF sub select_phases(3)] fill_phase_rel_mono [OF sub select_phases(4)]])
qed

lemma generate_options_rel_mono:
  assumes sub: "\<And>g xs p. shuf g xs p \<Longrightarrow> shuf' g xs p"
    and run: "generate_options_rel shuf listing fresh df c t0 d rng r"
  shows "generate_options_rel shuf' listing fresh df c t0 d rng r"
  using run
proof cases
  case raise_empty
  then show ?thesis by (simp add: generate_options_rel.raise_empty)
next
  case raise_unknown
  then show ?thesis by (simp add: generate_options_rel.raise_unknown)
next
  case (raise_insufficient crow g0 h g l)
  have "select_ids_rel shuf' df crow c (clamp_total t0 df) (lower d) g0 (h, g)"
    using sub raise_insufficient(5) by (rule select_ids_rel_mono [where shuf = shuf])
  with raise_insufficient(2,3,4) show ?thesis unfolding raise_insufficient(1)
    using raise_insufficient(6,7) by (rule generate_options_rel.raise_insufficient)
next
  case (return_items crow g0 h g l sl g')
  have "select_ids_rel shuf' df crow c (clamp_total t0 df) (lower d) g0 (h, g)"
    using sub return_items(5) by (rule select_ids_rel_mono [where shuf = shuf])
  with return_items(2,3,4) show ?thesis unfolding return_items(1)
    using return_items(6,7) sub [OF return_items(8)] by (rule generate_options_rel.return_items)
qed

lemma rev_shuffle_permutes: "shuffle_permutes rev_shuffle"
  by (simp add: shuffle_permutes_def rev_shuffle_def)

lemma permuting_in_any_shuffle:
  "shuffle_permutes sh \<Longrightarrow> shuffle_graph sh g xs p \<Longrightarrow> any_shuffle g xs p"
  by (simp add: shuffle_permutes_def shuffle_graph_def any_shuffle_def)

section \<open>Runs on the examples\<close>

lemma sample_unique: "unique_index sample_df"
  by (simp add: unique_index_def df_index_def sample_df_def)

lemma sample_easy_run:
  "generate_options rot_shuffle sorted_list_of_set 0 sample_df 0 3 ''easy'' (Some 1) =
     Inr ([\<lparr>row_idx = 3, label = ''Kia K5 2019''\<rparr>, \<lparr>row_idx = 0, label = ''Kia K5 2020''\<rparr>,
           \<lparr>row_idx = 1, label = ''Kia K3 2020''\<rparr>], 3)"
  by code_simp

lemma single_run:
  "generate_options rot_shuffle sorted_list_of_set 0 single_df 7 5 ''medium'' (Some 0)
     = Inl InsufficientCandidates"
  by code_simp

lemma sample_same_year_run:
  "same_year_phase rot_shuffle sample_df (car ''Kia'' ''K5'' ''2020'') 0 4 ''easy'' ({0}, 0)
     = ({0, 2}, 1)"
  by code_simp

lemma sample_same_model_run:
  "same_model_phase rot_shuffle sample_df (car ''Kia'' ''K5'' ''2020'') 0 4 ''hard'' ({0}, 0)
     = ({0, 3}, 1)"
  by code_simp

text \<open>Without a generator from the caller the result depends on the fresh one.\<close>

lemma default_rng_matters:
  "generate_options rot_shuffle sorted_list_of_set 0 sample_df 0 10 ''hard'' None
     \<noteq> generate_options rot_shuffle sorted_list_of_set 1 sample_df 0 10 ''hard'' None"
  by code_simp

lemma sample_rel_run:
  "generate_options_rel (shuffle_graph rot_shuffle) (listing_graph sorted_list_of_set) fresh
     sample_df 0 3 ''easy'' (Some 1)
     (Inr ([\<lparr>row_idx = 3, label = ''Kia K5 2019''\<rparr>, \<lparr>row_idx = 0, label = ''Kia K5 2020''\<rparr>,
            \<lparr>row_idx = 1, label = ''Kia K3 2020''\<rparr>], 3))"
proof -
  have "start_rng fresh (Some 1) (1::nat)" by (simp add: start_rng_def)
  from generate_options_rel_function [OF this, of rot_shuffle sorted_list_of_set sample_df 0 3
      "''easy''"]
  have "generate_options_rel (shuffle_graph rot_shuffle) (listing_graph sorted_list_of_set) fresh
     sample_df 0 3 ''easy'' (Some 1)
     (generate_options rot_shuffle sorted_list_of_set 1 sample_df 0 3 ''easy'' (Some 1))" .
  moreover have "generate_options rot_shuffle sorted_list_of_set 1 sample_df 0 3 ''easy'' (Some 1)
      = generate_options rot_shuffle sorted_list_of_set 0 sample_df 0 3 ''easy'' (Some 1)"
    by (simp add: generate_options_def)
  ultimately show ?thesis by (simp only: sample_easy_run)
qed

lemma sample_rev_run:
  "generate_options rev_shuffle sorted_list_of_set 1 sample_df 0 3 ''easy'' (Some 1) =
     Inr ([\<lparr>row_idx = 3, label = ''Kia K5 2019''\<rparr>, \<lparr>row_idx = 1, label = ''Kia K3 2020''\<rparr>,
           \<lparr>row_idx = 0, label = ''Kia K5 2020''\<rparr>], 3)"
  by code_simp

lemma sample_fresh_run:
  "generate_options rot_shuffle sorted_list_of_set 1 sample_df 0 3 ''easy'' (Some 1) =
     Inr ([\<lparr>row_idx = 3, label = ''Kia K5 2019''\<rparr>, \<lparr>row_idx = 0, label = ''Kia K5 2020''\<rparr>,
           \<lparr>row_idx = 1, label = ''Kia K3 2020''\<rparr>], 3)"
  by code_simp

text \<open>
  Where the relation leaves a choice, the call has several results: without a generator
  from the caller, and with a generator that is not determined by its state.
\<close>

lemma default_rng_two_results:
  "\<exists>r1 r2. generate_options_rel (shuffle_graph rot_shuffle) (listing_graph sorted_list_of_set)
        (\<lambda>g. True) sample_df 0 10 ''hard'' None r1
     \<and> generate_options_rel (shuffle_graph rot_shuffle) (listing_graph sorted_list_of_set)
        (\<lambda>g. True) sample_df 0 10 ''hard'' None r2
     \<and> r1 \<noteq> r2"
proof -
  have s: "start_rng (\<lambda>g. True) None (g0::nat)" for g0 by (simp add: start_rng_def)
  have e: "generate_options rot_shuffle sorted_list_of_set g0 sample_df 0 10 ''hard'' (Some g0)
      = generate_options rot_shuffle sorted_list_of_set g0 sample_df 0 10 ''hard'' None" for g0
    by (simp add: generate_options_def)
  from generate_options_rel_function [OF s [of 0], of rot_shuffle sorted_list_of_set sample_df 0 10
      "''hard''"]
    generate_options_rel_function [OF s [of 1], of rot_shuffle sorted_list_of_set sample_df 0 10
      "''hard''"]
    default_rng_matters
  show ?thesis unfolding e by blast
qed

lemma undetermined_shuffle_two_results:
  "\<exists>r1 r2. generate_options_rel any_shuffle (listing_graph sorted_list_of_set) fresh
        sample_df 0 3 ''easy'' (Some (1::nat)) r1
     \<and> generate_options_rel any_shuffle (listing_graph sorted_list_of_set) fresh
        sample_df 0 3 ''easy'' (Some 1) r2
     \<and> r1 \<noteq> r2"
proof -
  have s: "start_rng fresh (Some 1) (1::nat)" by (simp add: start_rng_def)
  have a: "generate_options_rel any_shuffle (listing_graph sorted_list_of_set) fresh
        sample_df 0 3 ''easy'' (Some 1)
        (generate_options rot_shuffle sorted_list_of_set 1 sample_df 0 3 ''easy'' (Some 1))"
    by (rule generate_options_rel_mono [OF permuting_in_any_shuffle [OF rot_shuffle_permutes]
          generate_options_rel_function [OF s]])
  have b: "generate_options_rel any_shuffle (listing_graph sorted_list_of_set) fresh
        sample_df 0 3 ''easy'' (Some 1)
        (generate_options rev_shuffle sorted_list_of_set 1 sample_df 0 3 ''easy'' (Some 1))"
    by (rule generate_options_rel_mono [OF permuting_in_any_shuffle [OF rev_shuffle_permutes]
          generate_options_rel_function [OF s]])
  have "generate_options rot_shuffle sorted_list_of_set 1 sample_df 0 3 ''easy'' (Some 1)
      \<noteq> generate_options rev_shuffle sorted_list_of_set 1 sample_df 0 3 ''easy'' (Some 1)"
    unfolding sample_fresh_run sample_rev_run by simp
  with a b show ?thesis by blast
qed

section \<open>The claims\<close>

text \<open>
  C1. Whenever \<open>generate_options\<close> returns a list (which it only does on a non-empty
  frame that contains \<open>correct_idx\<close>), the list has exactly
  \<open>max 2 (min total_options (length df))\<close> entries, whatever the difficulty and the
  generator.
\<close>

theorem generate_options_length:
  assumes "shuffle_permutes shuffle" and "lists_members set_iter"
    and "generate_options shuffle set_iter fresh df c t0 d rng = Inr (opts, g')"
  shows "int (length opts) = max 2 (min t0 (int (length df)))"
proof -
  from assms obtain S where "finite S" and "int (card S) = clamp_total t0 df"
    and "mset (map row_idx opts) = mset_set S"
    by (rule generate_options_returned)
  then show ?thesis using returned_length [of S opts] by (simp add: clamp_total_def)
qed

theorem generate_options_length_witness:
  "shuffle_permutes rot_shuffle \<and> lists_members sorted_list_of_set
   \<and> generate_options rot_shuffle sorted_list_of_set 0 sample_df 0 3 ''easy'' (Some 1) =
       Inr ([\<lparr>row_idx = 3, label = ''Kia K5 2019''\<rparr>, \<lparr>row_idx = 0, label = ''Kia K5 2020''\<rparr>,
             \<lparr>row_idx = 1, label = ''Kia K3 2020''\<rparr>], 3)
   \<and> int (length [\<lparr>row_idx = 3, label = ''Kia K5 2019''\<rparr>, \<lparr>row_idx = 0, label = ''Kia K5 2020''\<rparr>,
             \<lparr>row_idx = 1, label = ''Kia K3 2020''\<rparr>]) = max 2 (min 3 (int (length sample_df)))"
  using generate_options_length [OF rot_shuffle_permutes sorted_lists_members sample_easy_run]
    rot_shuffle_permutes sorted_lists_members sample_easy_run
  by simp

text \<open>
  C2. Whenever \<open>generate_options\<close> returns a list, exactly one of its items has the
  correct identifier as its \<open>row_idx\<close>, and the \<open>row_idx\<close> values of the list are
  pairwise distinct.
\<close>

theorem generate_options_correct_once:
  assumes "shuffle_permutes shuffle" and "lists_members set_iter"
    and "generate_options shuffle set_iter fresh df c t0 d rng = Inr (opts, g')"
  shows "length (filter (\<lambda>item. row_idx item = c) opts) = 1 \<and> distinct (map row_idx opts)"
proof -
  from assms obtain S where fin: "finite S" and cin: "c \<in> S"
    and ms: "mset (map row_idx opts) = mset_set S"
    by (rule generate_options_returned)
  have "count (mset (map row_idx opts)) c = 1" unfolding ms using fin cin by simp
  moreover have "distinct (map row_idx opts)" using fin ms by (rule distinct_of_mset_set)
  ultimately show ?thesis by (simp add: count_row_idx)
qed

theorem generate_options_correct_once_witness:
  "shuffle_permutes rot_shuffle \<and> lists_members sorted_list_of_set
   \<and> generate_options rot_shuffle sorted_list_of_set 0 sample_df 0 3 ''easy'' (Some 1) =
       Inr ([\<lparr>row_idx = 3, label = ''Kia K5 2019''\<rparr>, \<lparr>row_idx = 0, label = ''Kia K5 2020''\<rparr>,
             \<lparr>row_idx = 1, label = ''Kia K3 2020''\<rparr>], 3)
   \<and> length (filter (\<lambda>item. row_idx item = 0)
        [\<lparr>row_idx = 3, label = ''Kia K5 2019''\<rparr>, \<lparr>row_idx = 0, label = ''Kia K5 2020''\<rparr>,
         \<lparr>row_idx = 1, label = ''Kia K3 2020''\<rparr>]) = 1
   \<and> distinct (map row_idx
        [\<lparr>row_idx = 3, label = ''Kia K5 2019''\<rparr>, \<lparr>row_idx = 0, label = ''Kia K5 2020''\<rparr>,
         \<lparr>row_idx = 1, label = ''Kia K3 2020''\<rparr>])"
  using generate_options_correct_once [OF rot_shuffle_permutes sorted_lists_members sample_easy_run]
    rot_shuffle_permutes sorted_lists_members sample_easy_run
  by simp

text \<open>
  C3. On a frame with unique labels, \<open>generate_options\<close> either returns a list of
  exactly \<open>max 2 (min total_options (length df))\<close> items with distinct identifiers, or
  fails with one of the three errors: \<open>EmptyDataset\<close> exactly when the frame has no
  row, \<open>UnknownRecord\<close> exactly when the frame has rows and \<open>correct_idx\<close> is not one of
  its labels, and \<open>InsufficientCandidates\<close> exactly when \<open>correct_idx\<close> is in the
  non-empty frame and the selection phases end with fewer identifiers than the clamped
  count. A shorter list is never returned.
\<close>

theorem generate_options_outcomes:
  assumes sh: "shuffle_permutes shuffle" and si: "lists_members set_iter"
    and uniq: "unique_index df"
  shows
    "((\<exists>opts g'. generate_options shuffle set_iter fresh df c t0 d rng = Inr (opts, g')
         \<and> int (length opts) = max 2 (min t0 (int (length df)))
         \<and> distinct (map row_idx opts))
      \<or> generate_options shuffle set_iter fresh df c t0 d rng = Inl EmptyDataset
      \<or> generate_options shuffle set_iter fresh df c t0 d rng = Inl UnknownRecord
      \<or> generate_options shuffle set_iter fresh df c t0 d rng = Inl InsufficientCandidates)
     \<and> (generate_options shuffle set_iter fresh df c t0 d rng = Inl EmptyDataset \<longleftrightarrow> df = [])
     \<and> (generate_options shuffle set_iter fresh df c t0 d rng = Inl UnknownRecord
          \<longleftrightarrow> df \<noteq> [] \<and> c \<notin> set (df_index df))
     \<and> (generate_options shuffle set_iter fresh df c t0 d rng = Inl InsufficientCandidates
          \<longleftrightarrow> df \<noteq> [] \<and>
              (\<exists>crow. map_of df c = Some crow \<and>
                 int (card (fst (select_ids shuffle df crow c (clamp_total t0 df) (lower d)
                                   (rng_of fresh rng)))) < clamp_total t0 df))"
  using sh si
proof (cases rule: generate_options_cases [where df = df and c = c and ?t0.0 = t0 and d = d
      and fresh = fresh and rng = rng])
  case empty
  then show ?thesis by simp
next
  case unknown
  then show ?thesis by (simp add: index_iff_loc)
next
  case (short crow S)
  then show ?thesis by (simp add: index_iff_loc)
next
  case (full crow S items g')
  have fin: "finite S" using full(4) by (simp add: selection_inv_def)
  have dist: "distinct (map row_idx items)" using fin full(7) by (rule distinct_of_mset_set)
  have len: "int (length items) = max 2 (min t0 (int (length df)))"
    using returned_length [OF fin full(7)] full(5) by (simp add: clamp_total_def)
  have cin: "c \<in> set (df_index df)" using full(2) by (simp add: index_iff_loc)
  show ?thesis using full(1,2,3,5,6) dist len cin by simp
qed

theorem generate_options_outcomes_witness:
  "shuffle_permutes rot_shuffle \<and> lists_members sorted_list_of_set \<and> unique_index sample_df
   \<and> generate_options rot_shuffle sorted_list_of_set 0 sample_df 0 3 ''easy'' (Some 1) =
       Inr ([\<lparr>row_idx = 3, label = ''Kia K5 2019''\<rparr>, \<lparr>row_idx = 0, label = ''Kia K5 2020''\<rparr>,
             \<lparr>row_idx = 1, label = ''Kia K3 2020''\<rparr>], 3)
   \<and> generate_options rot_shuffle sorted_list_of_set 0 sample_df 0 3 ''easy'' (Some 1)
       \<noteq> Inl EmptyDataset
   \<and> sample_df \<noteq> []
   \<and> generate_options rot_shuffle sorted_list_of_set 0 sample_df 0 3 ''easy'' (Some 1)
       \<noteq> Inl UnknownRecord
   \<and> 0 \<in> set (df_index sample_df)"
  using generate_options_outcomes [OF rot_shuffle_permutes sorted_lists_members sample_unique,
      of 0 0 3 "''easy''" "Some 1"]
    rot_shuffle_permutes sorted_lists_members sample_unique sample_easy_run
  by auto

text \<open>
  C4. Two calls of \<open>generate_options\<close> with the same frame, correct identifier,
  requested count and difficulty, and with generators in the same state, give the same
  result: the same list of options (and the same state of the generator afterwards), or
  the same error. The generator is one whose shuffle is determined by its state (a fixed
  seed), and the runtime lists a set built in the same order in the same way. The call
  is the relation \<open>generate_options_rel\<close>, which itself fixes neither the shuffles
  nor the listing nor the fresh generator.
\<close>

theorem generate_options_deterministic:
  assumes "shuffle_determined shuf" and "listing_determined listing"
    and "generate_options_rel shuf listing fresh1 df c t0 d (Some g) r1"
    and "generate_options_rel shuf listing fresh2 df c t0 d (Some g) r2"
  shows "r1 = r2"
  using assms by (rule generate_options_rel_unique)

theorem generate_options_deterministic_witness:
  "shuffle_determined (shuffle_graph rot_shuffle)
   \<and> listing_determined (listing_graph sorted_list_of_set)
   \<and> generate_options_rel (shuffle_graph rot_shuffle) (listing_graph sorted_list_of_set)
        (\<lambda>g. g = 0) sample_df 0 3 ''easy'' (Some 1)
        (Inr ([\<lparr>row_idx = 3, label = ''Kia K5 2019''\<rparr>, \<lparr>row_idx = 0, label = ''Kia K5 2020''\<rparr>,
               \<lparr>row_idx = 1, label = ''Kia K3 2020''\<rparr>], 3))
   \<and> generate_options_rel (shuffle_graph rot_shuffle) (listing_graph sorted_list_of_set)
        (\<lambda>g. True) sample_df 0 3 ''easy'' (Some 1)
        (Inr ([\<lparr>row_idx = 3, label = ''Kia K5 2019''\<rparr>, \<lparr>row_idx = 0, label = ''Kia K5 2020''\<rparr>,
               \<lparr>row_idx = 1, label = ''Kia K3 2020''\<rparr>], 3))"
  using generate_options_deterministic [OF shuffle_graph_determined listing_graph_determined
      sample_rel_run [of "\<lambda>g. g = 0"] sample_rel_run [of "\<lambda>g. True"]]
    shuffle_graph_determined [of rot_shuffle] listing_graph_determined [of sorted_list_of_set]
    sample_rel_run [of "\<lambda>g. g = 0"] sample_rel_run [of "\<lambda>g. True"]
  by blast

text \<open>
  C5 (as amended). On a frame with unique labels and at least two rows that contains
  \<open>correct_idx\<close>, a request for more options than the frame has rows succeeds and
  returns exactly one option per row: the clamp of line 68 then equals the size of the
  frame. On a frame of a single row the clamp is 2 and the call fails with
  \<open>InsufficientCandidates\<close>.
\<close>

theorem clamp_to_size:
  assumes "shuffle_permutes shuffle" and "lists_members set_iter"
    and "c \<in> set (df_index df)" and "int (length df) < t0"
  shows "(unique_index df \<and> 2 \<le> length df \<longrightarrow>
            (\<exists>opts g'. generate_options shuffle set_iter fresh df c t0 d rng = Inr (opts, g')
               \<and> length opts = length df)
            \<and> clamp_total t0 df = int (length df))
         \<and> (length df = 1 \<longrightarrow>
              generate_options shuffle set_iter fresh df c t0 d rng = Inl InsufficientCandidates
              \<and> clamp_total t0 df = 2)"
proof (intro conjI impI)
  assume big: "unique_index df \<and> 2 \<le> length df"
  then obtain opts g' where
    res: "generate_options shuffle set_iter fresh df c t0 d rng = Inr (opts, g')"
    using generate_options_returns [OF assms(1,2) _ _ assms(3)] by blast
  from assms(1,2) res obtain S where "finite S" and "int (card S) = clamp_total t0 df"
    and "mset (map row_idx opts) = mset_set S"
    by (rule generate_options_returned)
  then have "int (length opts) = clamp_total t0 df" using returned_length [of S opts] by simp
  then have "length opts = length df" using big assms(4) by (simp add: clamp_total_def)
  with res show "\<exists>opts g'. generate_options shuffle set_iter fresh df c t0 d rng = Inr (opts, g')
      \<and> length opts = length df"
    by blast
next
  assume "unique_index df \<and> 2 \<le> length df"
  then show "clamp_total t0 df = int (length df)" using assms(4) by (simp add: clamp_total_def)
next
  assume "length df = 1"
  then show "generate_options shuffle set_iter fresh df c t0 d rng = Inl InsufficientCandidates"
    using single_row_short [OF assms(1,2) _ assms(3)] by blast
next
  assume "length df = 1"
  then show "clamp_total t0 df = 2" by (simp add: clamp_total_def)
qed

theorem clamp_to_size_witness:
  "shuffle_permutes rot_shuffle \<and> lists_members sorted_list_of_set
   \<and> 0 \<in> set (df_index sample_df) \<and> int (length sample_df) < 10
   \<and> unique_index sample_df \<and> 2 \<le> length sample_df
   \<and> (\<exists>opts g'. generate_options rot_shuffle sorted_list_of_set 0 sample_df 0 10 ''hard'' (Some 1)
          = Inr (opts, g') \<and> length opts = length sample_df)
   \<and> clamp_total 10 sample_df = int (length sample_df)
   \<and> 7 \<in> set (df_index single_df) \<and> int (length single_df) < 5 \<and> length single_df = 1
   \<and> generate_options rot_shuffle sorted_list_of_set 0 single_df 7 5 ''medium'' (Some 0)
       = Inl InsufficientCandidates
   \<and> clamp_total 5 single_df = 2"
proof -
  have a: "0 \<in> set (df_index sample_df)" by (simp add: df_index_def sample_df_def)
  have b: "int (length sample_df) < 10" by (simp add: sample_df_def)
  have c: "2 \<le> length sample_df" by (simp add: sample_df_def)
  have a1: "7 \<in> set (df_index single_df)" by (simp add: df_index_def single_df_def)
  have b1: "int (length single_df) < 5" by (simp add: single_df_def)
  have c1: "length single_df = 1" by (simp add: single_df_def)
  from clamp_to_size [OF rot_shuffle_permutes sorted_lists_members a b, of 0 "''hard''" "Some 1"]
    clamp_to_size [OF rot_shuffle_permutes sorted_lists_members a1 b1, of 0 "''medium''" "Some 0"]
    rot_shuffle_permutes sorted_lists_members sample_unique a b c a1 b1 c1
  show ?thesis by blast
qed

text \<open>
  The claim as the specification words it fails on a frame of one row: the request for
  five options is clamped to 2, which the single row cannot supply.
\<close>

theorem clamp_to_size_counterexample:
  "single_df \<noteq> [] \<and> 7 \<in> set (df_index single_df) \<and> int (length single_df) < 5
   \<and> generate_options rot_shuffle sorted_list_of_set 0 single_df 7 5 ''medium'' (Some 0)
       = Inl InsufficientCandidates
   \<and> \<not> clamp_total 5 single_df \<le> int (length single_df)"
  using single_run by (simp add: single_df_def df_index_def clamp_total_def)

text \<open>
  C6. With difficulty \<^verbatim>\<open>easy\<close>, every identifier that the same-year quota adds to
  the selected set is the label of a row of the frame that has the year of the correct
  row and a make different from it (\<open>crow\<close> is the correct row, \<open>S\<close> the set the
  sub-phase starts from).
\<close>

theorem same_year_easy_different_make:
  assumes "shuffle_permutes shuffle" and "unique_index df"
  shows "\<forall>idx \<in> fst (same_year_phase shuffle df crow c t ''easy'' (S, g)) - S.
           \<exists>r. map_of df idx = Some r \<and> year r = year crow \<and> make_en r \<noteq> make_en crow"
proof
  fix idx
  assume "idx \<in> fst (same_year_phase shuffle df crow c t ''easy'' (S, g)) - S"
  then have "idx \<in> fst (try_add shuffle df crow t (same_year_mask crow c)
                 (same_year (plan_get ''easy'')) True (S, g))" and "idx \<notin> S"
    by (simp_all add: same_year_phase_def)
  from try_add_added_row [OF assms this]
  show "\<exists>r. map_of df idx = Some r \<and> year r = year crow \<and> make_en r \<noteq> make_en crow"
    by (auto simp: same_year_mask_def)
qed

theorem same_year_easy_different_make_witness:
  "shuffle_permutes rot_shuffle \<and> unique_index sample_df
   \<and> 2 \<in> fst (same_year_phase rot_shuffle sample_df (car ''Kia'' ''K5'' ''2020'') 0 4 ''easy''
               ({0}, 0)) - {0}
   \<and> (\<exists>r. map_of sample_df 2 = Some r \<and> year r = year (car ''Kia'' ''K5'' ''2020'')
         \<and> make_en r \<noteq> make_en (car ''Kia'' ''K5'' ''2020''))"
proof -
  have a: "2 \<in> fst (same_year_phase rot_shuffle sample_df (car ''Kia'' ''K5'' ''2020'') 0 4
                      ''easy'' ({0}, 0)) - {0}"
    by (simp add: sample_same_year_run)
  from same_year_easy_different_make [OF rot_shuffle_permutes sample_unique, THEN bspec, OF a]
    a rot_shuffle_permutes sample_unique
  show ?thesis by blast
qed

text \<open>
  C7. For every difficulty, every identifier that the same-model quota adds to the
  selected set is not the correct identifier and is the label of a row of the frame
  that has the model of the correct row and a year different from it.
\<close>

theorem same_model_different_year:
  assumes "shuffle_permutes shuffle" and "unique_index df"
  shows "\<forall>idx \<in> fst (same_model_phase shuffle df crow c t d (S, g)) - S.
           idx \<noteq> c \<and>
           (\<exists>r. map_of df idx = Some r \<and> model_en r = model_en crow \<and> year r \<noteq> year crow)"
proof
  fix idx
  assume "idx \<in> fst (same_model_phase shuffle df crow c t d (S, g)) - S"
  then have "idx \<in> fst (try_add shuffle df crow t (same_model_mask crow c)
                 (same_model (plan_get d)) False (S, g))" and "idx \<notin> S"
    by (simp_all add: same_model_phase_def)
  from try_add_added_row [OF assms this]
  show "idx \<noteq> c \<and>
           (\<exists>r. map_of df idx = Some r \<and> model_en r = model_en crow \<and> year r \<noteq> year crow)"
    by (auto simp: same_model_mask_def)
qed

theorem same_model_different_year_witness:
  "shuffle_permutes rot_shuffle \<and> unique_index sample_df
   \<and> 3 \<in> fst (same_model_phase rot_shuffle sample_df (car ''Kia'' ''K5'' ''2020'') 0 4 ''hard''
               ({0}, 0)) - {0}
   \<and> (3::int) \<noteq> 0
   \<and> (\<exists>r. map_of sample_df 3 = Some r \<and> model_en r = model_en (car ''Kia'' ''K5'' ''2020'')
         \<and> year r \<noteq> year (car ''Kia'' ''K5'' ''2020''))"
proof -
  have a: "3 \<in> fst (same_model_phase rot_shuffle sample_df (car ''Kia'' ''K5'' ''2020'') 0 4
                      ''hard'' ({0}, 0)) - {0}"
    by (simp add: sample_same_model_run)
  from same_model_different_year [OF rot_shuffle_permutes sample_unique, THEN bspec, OF a]
    a rot_shuffle_permutes sample_unique
  show ?thesis by blast
qed

text \<open>
  C8. The difficulty is read without regard to case: two difficulty strings with the
  same lower-case form give the same result, and a string gives the same result as its
  lower-case form. A string whose lower-case form is none of \<^verbatim>\<open>easy\<close>, \<^verbatim>\<open>medium\<close>,
  \<^verbatim>\<open>hard\<close> gives exactly the result of \<^verbatim>\<open>medium\<close> on the same inputs and generator
  state, so it raises no error of its own.
\<close>

theorem difficulty_case_and_default:
  "(lower d1 = lower d2 \<longrightarrow>
      generate_options shuffle set_iter fresh df c t0 d1 rng
        = generate_options shuffle set_iter fresh df c t0 d2 rng)
   \<and> generate_options shuffle set_iter fresh df c t0 d rng
        = generate_options shuffle set_iter fresh df c t0 (lower d) rng
   \<and> (lower d \<notin> {''easy'', ''medium'', ''hard''} \<longrightarrow>
        generate_options shuffle set_iter fresh df c t0 d rng
          = generate_options shuffle set_iter fresh df c t0 ''medium'' rng)"
proof (intro conjI impI)
  assume "lower d1 = lower d2"
  then show "generate_options shuffle set_iter fresh df c t0 d1 rng
        = generate_options shuffle set_iter fresh df c t0 d2 rng"
    by (intro generate_options_select_cong) simp
next
  show "generate_options shuffle set_iter fresh df c t0 d rng
        = generate_options shuffle set_iter fresh df c t0 (lower d) rng"
    by (intro generate_options_select_cong) (simp add: lower_idem)
next
  assume "lower d \<notin> {''easy'', ''medium'', ''hard''}"
  then show "generate_options shuffle set_iter fresh df c t0 d rng
          = generate_options shuffle set_iter fresh df c t0 ''medium'' rng"
    by (intro generate_options_select_cong) (simp add: lower_medium select_ids_unrecognized)
qed

theorem difficulty_case_and_default_witness:
  "lower ''EASY'' = lower ''easy''
   \<and> generate_options rot_shuffle sorted_list_of_set 0 sample_df 0 3 ''EASY'' (Some 1)
       = generate_options rot_shuffle sorted_list_of_set 0 sample_df 0 3 ''easy'' (Some 1)
   \<and> lower ''Expert'' \<notin> {''easy'', ''medium'', ''hard''}
   \<and> generate_options rot_shuffle sorted_list_of_set 0 sample_df 0 3 ''Expert'' (Some 1)
       = generate_options rot_shuffle sorted_list_of_set 0 sample_df 0 3 ''medium'' (Some 1)"
proof -
  have a: "lower ''EASY'' = lower ''easy''" by code_simp
  have b: "lower ''Expert'' \<notin> {''easy'', ''medium'', ''hard''}" by code_simp
  from a b
    difficulty_case_and_default [of "''EASY''" "''easy''" rot_shuffle sorted_list_of_set 0
      sample_df 0 3 "Some 1" "''Expert''"]
  show ?thesis by blast
qed

text \<open>
  C9. \<open>build_option_label\<close> gives the format of section 4.1: the make segment is
  \<^verbatim>\<open>localized(english)\<close> when the localized make is not empty and the English make
  otherwise, the model segment follows the same rule, the variant segment is there only
  when the variant is not empty, and the label is the make, model, year and variant
  segments joined by single spaces, the empty ones skipped. It is a function of the row.
\<close>

theorem build_option_label_format: "build_option_label r = label_format r"
  by (simp add: build_option_label_def label_format_def bilingual_segment_def variant_segment_def
      Let_def split: option.splits)

theorem build_option_label_format_witness:
  "build_option_label
     \<lparr>make_ko = ''Gia'', make_en = ''Kia'', model_ko = [], model_en = ''K5'', year = ''2020'',
      variant = Some ''GT''\<rparr>
   = label_format
     \<lparr>make_ko = ''Gia'', make_en = ''Kia'', model_ko = [], model_en = ''K5'', year = ''2020'',
      variant = Some ''GT''\<rparr>"
  by (rule build_option_label_format)

text \<open>
  C10. On a frame with unique labels, at least two rows and \<open>correct_idx\<close> among its
  labels, \<open>generate_options\<close> returns a list for every requested count, difficulty and
  generator: it never fails with \<open>InsufficientCandidates\<close> there. That error only
  occurs on a frame with fewer than two identifiers.
\<close>

theorem never_insufficient:
  assumes "shuffle_permutes shuffle" and "lists_members set_iter" and "unique_index df"
  shows "(2 \<le> length df \<and> c \<in> set (df_index df) \<longrightarrow>
            (\<exists>opts g'. generate_options shuffle set_iter fresh df c t0 d rng = Inr (opts, g')))
         \<and> (generate_options shuffle set_iter fresh df c t0 d rng = Inl InsufficientCandidates
              \<longrightarrow> card (set (df_index df)) < 2)"
proof (intro conjI impI)
  assume "2 \<le> length df \<and> c \<in> set (df_index df)"
  then show "\<exists>opts g'. generate_options shuffle set_iter fresh df c t0 d rng = Inr (opts, g')"
    using generate_options_returns [OF assms] by blast
next
  assume ins: "generate_options shuffle set_iter fresh df c t0 d rng = Inl InsufficientCandidates"
  have card: "card (set (df_index df)) = length df"
    using assms(3) distinct_card [of "df_index df"] by (simp add: unique_index_def df_index_def)
  have cin: "c \<in> set (df_index df)"
    using assms(1,2)
    by (cases rule: generate_options_cases [where df = df and c = c and ?t0.0 = t0 and d = d
      and fresh = fresh and rng = rng]) (use ins in \<open>simp_all add: index_iff_loc\<close>)
  show "card (set (df_index df)) < 2"
  proof (rule ccontr)
    assume "\<not> card (set (df_index df)) < 2"
    then have "2 \<le> length df" using card by simp
    from generate_options_returns [OF assms this cin, of fresh t0 d rng] ins show False by simp
  qed
qed

theorem never_insufficient_witness:
  "shuffle_permutes rot_shuffle \<and> lists_members sorted_list_of_set
   \<and> unique_index sample_df \<and> 2 \<le> length sample_df \<and> 0 \<in> set (df_index sample_df)
   \<and> (\<exists>opts g'. generate_options rot_shuffle sorted_list_of_set 0 sample_df 0 3 ''easy'' (Some 1)
          = Inr (opts, g'))
   \<and> unique_index single_df
   \<and> generate_options rot_shuffle sorted_list_of_set 0 single_df 7 5 ''medium'' (Some 0)
       = Inl InsufficientCandidates
   \<and> card (set (df_index single_df)) < 2"
proof -
  have a: "0 \<in> set (df_index sample_df)" by (simp add: df_index_def sample_df_def)
  have b: "2 \<le> length sample_df" by (simp add: sample_df_def)
  have u: "unique_index single_df" by (simp add: unique_index_def df_index_def single_df_def)
  from never_insufficient [OF rot_shuffle_permutes sorted_lists_members sample_unique,
      of 0 0 3 "''easy''" "Some 1"]
    never_insufficient [OF rot_shuffle_permutes sorted_lists_members u,
      of 7 0 5 "''medium''" "Some 0"]
    rot_shuffle_permutes sorted_lists_members sample_unique a b u single_run
  show ?thesis by blast
qed

end
